theory Spec2Isabelle
  imports Complex_Main "HOL-Library.Sublist" "HOL-Library.AList"
begin

section \<open>Shared types (src/types/index.ts)\<close>

text \<open>
  \<^verbatim>\<open>type ProviderName = 'anthropic' | 'openai' | 'google' | 'mistral'\<close>
\<close>

datatype ProviderName = anthropic | openai | google | mistral

text \<open>A provider name inside a template literal.\<close>

fun providerString :: "ProviderName \<Rightarrow> string" where
  "providerString anthropic = ''anthropic''"
| "providerString openai = ''openai''"
| "providerString google = ''google''"
| "providerString mistral = ''mistral''"

subsection \<open>JavaScript values and strings\<close>

text \<open>
  The router reads \<^verbatim>\<open>code\<close>, \<^verbatim>\<open>status\<close>, \<^verbatim>\<open>statusCode\<close> and \<^verbatim>\<open>message\<close> of
  whatever was thrown through \<^verbatim>\<open>(error as any)\<close>, so these properties are untyped.
  Strings are lists of code units. \<open>JsNumber n\<close> stands for an integer of magnitude below
  \<open>10 ^ 21\<close> (an HTTP status, a count), which \<^verbatim>\<open>String\<close> prints in plain decimal digits.
  Every other value (a fraction, a number from \<open>10 ^ 21\<close> on, which \<^verbatim>\<open>String\<close> prints with
  an exponent, \<^verbatim>\<open>NaN\<close>, an object) is \<open>JsOther s b\<close>: \<open>s\<close> is the string that
  \<^verbatim>\<open>String\<close> gives for it and \<open>b\<close> tells whether it is truthy. Such a value is not a
  string, not \<^verbatim>\<open>undefined\<close> and not \<^verbatim>\<open>null\<close>.
\<close>

datatype JsValue =
    Undefined | Null | JsString string | JsNumber int | JsBoolean bool | JsOther string bool

text \<open>The values that stand for a JavaScript value: the numbers are in the range named above.\<close>

fun representable :: "JsValue \<Rightarrow> bool" where
  "representable (JsNumber n) = (\<bar>n\<bar> < 10 ^ 21)"
| "representable v = True"

definition digitChar :: "nat \<Rightarrow> char" where
  "digitChar d = ''0123456789'' ! d"

fun showNat :: "nat \<Rightarrow> string" where
  "showNat n = (if n < 10 then [digitChar n] else showNat (n div 10) @ [digitChar (n mod 10)])"

declare showNat.simps [simp del]

definition showInt :: "int \<Rightarrow> string" where
  "showInt i = (if i < 0 then CHR ''-'' # showNat (nat (- i)) else showNat (nat i))"

text \<open>\<^verbatim>\<open>String(v)\<close>\<close>

fun String :: "JsValue \<Rightarrow> string" where
  "String Undefined = ''undefined''"
| "String Null = ''null''"
| "String (JsString s) = s"
| "String (JsNumber n) = showInt n"
| "String (JsBoolean b) = (if b then ''true'' else ''false'')"
| "String (JsOther s b) = s"

text \<open>\<^verbatim>\<open>a ?? b\<close>: the right operand is taken when the left one is null or undefined.\<close>

fun nullish :: "JsValue \<Rightarrow> JsValue \<Rightarrow> JsValue" where
  "nullish Undefined b = b"
| "nullish Null b = b"
| "nullish a b = a"

text \<open>\<^verbatim>\<open>s.startsWith(p)\<close> and \<^verbatim>\<open>s.includes(p)\<close>\<close>

fun startsWith :: "string \<Rightarrow> string \<Rightarrow> bool" where
  "startsWith s [] = True"
| "startsWith [] (p # ps) = False"
| "startsWith (c # s) (p # ps) = (c = p \<and> startsWith s ps)"

fun includesStr :: "string \<Rightarrow> string \<Rightarrow> bool" where
  "includesStr [] p = startsWith [] p"
| "includesStr (c # s) p = (startsWith (c # s) p \<or> includesStr s p)"

text \<open>\<^verbatim>\<open>xs.join(sep)\<close>\<close>

fun join :: "string \<Rightarrow> string list \<Rightarrow> string" where
  "join sep [] = []"
| "join sep [x] = x"
| "join sep (x # y # ys) = x @ sep @ join sep (y # ys)"

subsection \<open>Errors\<close>

text \<open>
  A thrown value, with the properties the router looks at. \<^verbatim>\<open>new Error(msg)\<close> has a
  string message and none of the other three. A thrown \<^verbatim>\<open>null\<close> or \<^verbatim>\<open>undefined\<close>,
  whose properties cannot be read, is not modelled.
\<close>

record Error =
  name :: string
  message :: JsValue
  code :: JsValue
  status :: JsValue
  statusCode :: JsValue

definition newError :: "string \<Rightarrow> Error" where
  "newError msg =
     \<lparr>Error.name = ''Error'', Error.message = JsString msg, Error.code = Undefined,
      Error.status = Undefined, Error.statusCode = Undefined\<rparr>"

subsection \<open>Requests, responses and stream chunks\<close>

text \<open>
  Of \<^verbatim>\<open>CompletionRequest\<close> the router reads \<^verbatim>\<open>model\<close>, \<^verbatim>\<open>fallback\<close> and
  \<^verbatim>\<open>timeout\<close>; the messages stand for the payload it hands on unchanged.
\<close>

record CompletionRequest =
  model :: string
  messages :: "(string \<times> string) list"
  fallback :: "string list option"
  timeout :: "nat option"

record CompletionMeta =
  latencyMs :: nat
  traceId :: string
  spanId :: string
  model :: string
  provider :: ProviderName
  cached :: bool
  failoverAttempts :: nat

record CompletionResponse =
  content :: string
  finishReason :: string
  meta :: CompletionMeta

text \<open>\<^verbatim>\<open>Partial<CompletionMeta>\<close>: every field may be missing.\<close>

record PartialMeta =
  latencyMs :: "nat option"
  traceId :: "string option"
  spanId :: "string option"
  model :: "string option"
  provider :: "ProviderName option"
  cached :: "bool option"
  failoverAttempts :: "nat option"

record StreamChunk =
  content :: "string option"
  finishReason :: "string option"
  meta :: "PartialMeta option"

text \<open>
  The retry settings. The counts and the delays in milliseconds are natural numbers, as in
  the defaults and in the tests; on such values the arithmetic of \<^verbatim>\<open>Math.pow\<close> and
  \<^verbatim>\<open>Math.min\<close> is exact.
\<close>

record RetryConfig =
  maxRetries :: nat
  initialDelayMs :: nat
  maxDelayMs :: nat
  backoffMultiplier :: nat
  retryableErrors :: "string list"

text \<open>One entry of \<^verbatim>\<open>RouteResult['attempts']\<close>.\<close>

record Attempt =
  provider :: ProviderName
  model :: string
  success :: bool
  error :: "Error option"
  latencyMs :: nat

text \<open>
  \<^verbatim>\<open>class AllProvidersFailedError extends OrchestraError\<close>: an error that carries the
  attempts; its constructor builds the message from them.
\<close>

record AllProvidersFailedError = Error +
  attempts :: "Attempt list"

definition newAllProvidersFailedError :: "Attempt list \<Rightarrow> AllProvidersFailedError" where
  "newAllProvidersFailedError as =
     \<lparr>Error.name = ''AllProvidersFailedError'',
      Error.message = JsString (''All providers failed: '' @
         join '', '' (map (\<lambda>a. providerString (Attempt.provider a) @ ''/'' @ Attempt.model a) as)),
      Error.code = JsString ''ALL_PROVIDERS_FAILED'',
      Error.status = Undefined, Error.statusCode = Undefined,
      attempts = as\<rparr>"

section \<open>The world a router runs in\<close>

text \<open>
  \<^verbatim>\<open>Date.now()\<close> reads the clock; calling an adapter and sleeping are effects. The world
  holds the clock (milliseconds) and the log of effects so far, and an adapter may answer
  differently in different worlds, as a mock that fails once and then succeeds does.
\<close>

datatype Effect = Invoked ProviderName string | Streamed ProviderName string | Slept nat

record World =
  now :: nat
  effects :: "Effect list"

text \<open>
  What a promise does when awaited: it resolves or rejects after so many milliseconds, or
  never settles.
\<close>

datatype 'a Promise = Resolves nat 'a | Rejects nat Error | Pending

text \<open>
  What iterating a stream does: it yields its chunks and then ends, or throws after them
  (\<open>failure\<close>); \<open>elapsed\<close> is the time the iteration took.
\<close>

record StreamRun =
  chunks :: "StreamChunk list"
  failure :: "Error option"
  elapsed :: nat

record ProviderAdapter =
  name :: ProviderName
  complete :: "CompletionRequest \<Rightarrow> World \<Rightarrow> CompletionResponse Promise"
  stream :: "CompletionRequest \<Rightarrow> World \<Rightarrow> StreamRun"

section \<open>Provider registry (src/providers/index.ts)\<close>

definition MODEL_PROVIDER_MAP :: "(string \<times> ProviderName) list" where
  "MODEL_PROVIDER_MAP =
    [(''claude-3-opus'', anthropic),
     (''claude-3-sonnet'', anthropic),
     (''claude-3-haiku'', anthropic),
     (''claude-3.5-sonnet'', anthropic),
     (''claude-3.5-haiku'', anthropic),
     (''claude-3-opus-20240229'', anthropic),
     (''claude-3-sonnet-20240229'', anthropic),
     (''claude-3-haiku-20240307'', anthropic),
     (''claude-3-5-sonnet-20241022'', anthropic),
     (''claude-3-5-haiku-20241022'', anthropic),
     (''gpt-4'', openai),
     (''gpt-4-turbo'', openai),
     (''gpt-4-turbo-preview'', openai),
     (''gpt-4o'', openai),
     (''gpt-4o-mini'', openai),
     (''gpt-3.5-turbo'', openai),
     (''gpt-3.5-turbo-16k'', openai),
     (''gemini-pro'', google),
     (''gemini-pro-vision'', google),
     (''gemini-1.5-pro'', google),
     (''gemini-1.5-flash'', google),
     (''gemini-2.0-flash'', google)]"

text \<open>
  The exact match looks at the table's own keys (names that a JavaScript object inherits
  from \<^verbatim>\<open>Object.prototype\<close>, such as \<^verbatim>\<open>constructor\<close>, are not modelled); then the
  prefix patterns, in the order of the source.
\<close>

definition getProviderForModel :: "string \<Rightarrow> ProviderName option" where
  "getProviderForModel m =
     (case map_of MODEL_PROVIDER_MAP m of
        Some p \<Rightarrow> Some p
      | None \<Rightarrow>
          if startsWith m ''claude'' then Some anthropic
          else if startsWith m ''gpt'' then Some openai
          else if startsWith m ''gemini'' then Some google
          else if startsWith m ''mistral'' then Some mistral
          else None)"

section \<open>Router (src/routing/router.ts)\<close>

definition DEFAULT_RETRY_CONFIG :: RetryConfig where
  "DEFAULT_RETRY_CONFIG =
     \<lparr>maxRetries = 3, initialDelayMs = 1000, maxDelayMs = 30000, backoffMultiplier = 2,
      retryableErrors = [''RATE_LIMIT'', ''TIMEOUT'', ''NETWORK_ERROR'', ''503'', ''529'']\<rparr>"

record Router =
  providers :: "ProviderName \<rightharpoonup> ProviderAdapter"
  retryConfig :: RetryConfig
  defaultTimeout :: nat

subsection \<open>buildModelChain\<close>

definition buildModelChain :: "CompletionRequest \<Rightarrow> (string \<times> ProviderName) list" where
  "buildModelChain request =
     (case getProviderForModel (CompletionRequest.model request) of
        Some primaryProvider \<Rightarrow> [(CompletionRequest.model request, primaryProvider)]
      | None \<Rightarrow> [])
     @ (case fallback request of
          Some fb \<Rightarrow>
            concat (map (\<lambda>m. case getProviderForModel m of
                                Some p \<Rightarrow> [(m, p)]
                              | None \<Rightarrow> []) fb)
        | None \<Rightarrow> [])"

subsection \<open>isRetryable\<close>

definition errorCode :: "Error \<Rightarrow> string" where
  "errorCode e =
     (let rawCode = Error.code e
      in case rawCode of
           JsString s \<Rightarrow> s
         | Undefined \<Rightarrow> []
         | _ \<Rightarrow> String rawCode)"

definition errorStatus :: "Error \<Rightarrow> string" where
  "errorStatus e =
     (let rawStatus = nullish (Error.status e) (Error.statusCode e)
      in if rawStatus \<noteq> Undefined then String rawStatus else [])"

definition errorMessage :: "Error \<Rightarrow> string" where
  "errorMessage e = (case Error.message e of JsString s \<Rightarrow> s | _ \<Rightarrow> [])"

definition isRetryable :: "Router \<Rightarrow> Error \<Rightarrow> bool" where
  "isRetryable this e =
     list_ex (\<lambda>tok. includesStr (errorCode e) tok
                   \<or> includesStr (errorStatus e) tok
                   \<or> includesStr (errorMessage e) tok)
             (retryableErrors (retryConfig this))"

subsection \<open>executeWithTimeout and sleep\<close>

text \<open>
  The object the timer rejects with. It is a plain object literal cast to
  \<^verbatim>\<open>TimeoutError\<close>, with a name, a message and a code.
\<close>

definition timeoutRejection :: "nat \<Rightarrow> Error" where
  "timeoutRejection timeoutMs =
     \<lparr>Error.name = ''TimeoutError'',
      Error.message = JsString (''Request timed out after '' @ showNat timeoutMs @ ''ms''),
      Error.code = JsString ''TIMEOUT'',
      Error.status = Undefined, Error.statusCode = Undefined\<rparr>"

text \<open>
  \<^verbatim>\<open>Promise.race([promise, timeoutPromise])\<close>: the outcome and the time it took. The
  promise wins when it settles no later than the timer fires; a promise that never settles
  loses. The loser is not cancelled.
\<close>

fun executeWithTimeout :: "'a Promise \<Rightarrow> nat \<Rightarrow> (Error + 'a) \<times> nat" where
  "executeWithTimeout (Resolves d r) timeoutMs =
     (if d \<le> timeoutMs then (Inr r, d) else (Inl (timeoutRejection timeoutMs), timeoutMs))"
| "executeWithTimeout (Rejects d e) timeoutMs =
     (if d \<le> timeoutMs then (Inl e, d) else (Inl (timeoutRejection timeoutMs), timeoutMs))"
| "executeWithTimeout Pending timeoutMs = (Inl (timeoutRejection timeoutMs), timeoutMs)"

text \<open>
  \<^verbatim>\<open>sleep(ms)\<close>: a timer of \<open>ms\<close> milliseconds. \<^verbatim>\<open>setTimeout\<close> keeps a delay only
  below \<open>2 ^ 31\<close> milliseconds; a longer one is not modelled.
\<close>

definition sleep :: "nat \<Rightarrow> World \<Rightarrow> World" where
  "sleep ms w = w\<lparr>now := now w + ms, effects := effects w @ [Slept ms]\<rparr>"

text \<open>
  \<^verbatim>\<open>await this.executeWithTimeout(adapter.complete({ ...request, model }),
  request.timeout ?? this.defaultTimeout)\<close>: the adapter is called in the current world,
  the call is logged, and the clock moves on by the time the race took.
\<close>

definition awaitComplete ::
  "Router \<Rightarrow> ProviderAdapter \<Rightarrow> CompletionRequest \<Rightarrow> string \<Rightarrow> ProviderName \<Rightarrow> World
     \<Rightarrow> (Error + CompletionResponse) \<times> World" where
  "awaitComplete this adapter request m p w =
     (let promise = complete adapter (request\<lparr>CompletionRequest.model := m\<rparr>) w;
          timeoutMs = (case timeout request of Some t \<Rightarrow> t | None \<Rightarrow> defaultTimeout this);
          (outcome, d) = executeWithTimeout promise timeoutMs
      in (outcome, w\<lparr>now := now w + d, effects := effects w @ [Invoked p m]\<rparr>))"

subsection \<open>route\<close>

text \<open>
  The delay before the next try, computed from the index of the try that failed. The code
  computes it in doubles; on natural numbers the doubles are exact as long as the power and
  the product stay below \<open>2 ^ 53\<close>, which is the range the statements about delays assume.
\<close>

definition backoffDelay :: "Router \<Rightarrow> nat \<Rightarrow> nat" where
  "backoffDelay this retry =
     min (initialDelayMs (retryConfig this) * backoffMultiplier (retryConfig this) ^ retry)
         (maxDelayMs (retryConfig this))"

text \<open>How the retry loop of one chain entry is left.\<close>

datatype LoopExit = Break | Return CompletionResponse

text \<open>
  The inner \<^verbatim>\<open>for (let retry = 0; retry <= maxRetries; retry++)\<close> loop, from the value
  \<open>retry\<close> on. The attempts array is shared with the outer loop, so it is passed in and
  handed back.
\<close>

function retryLoop ::
  "Router \<Rightarrow> ProviderAdapter \<Rightarrow> CompletionRequest \<Rightarrow> string \<Rightarrow> ProviderName \<Rightarrow> nat
     \<Rightarrow> Attempt list \<Rightarrow> World \<Rightarrow> LoopExit \<times> Attempt list \<times> World" where
  "retryLoop this adapter request m p retry as w =
     (if retry \<le> maxRetries (retryConfig this) then
        (let startTime = now w;
             (outcome, w') = awaitComplete this adapter request m p w
         in case outcome of
              Inr response \<Rightarrow>
                (Return (response\<lparr>CompletionResponse.meta :=
                           (CompletionResponse.meta response)
                             \<lparr>CompletionMeta.failoverAttempts := length as\<rparr>\<rparr>),
                 as @ [\<lparr>Attempt.provider = p, Attempt.model = m, success = True,
                        error = None, Attempt.latencyMs = now w' - startTime\<rparr>],
                 w')
            | Inl e \<Rightarrow>
                (let latency = now w' - startTime;
                     retryable = isRetryable this e;
                     as' = as @ [\<lparr>Attempt.provider = p, Attempt.model = m, success = False,
                                  error = Some e, Attempt.latencyMs = latency\<rparr>]
                 in if \<not> retryable \<or> retry = maxRetries (retryConfig this)
                    then (Break, as', w')
                    else retryLoop this adapter request m p (retry + 1) as'
                           (sleep (backoffDelay this retry) w')))
      else (Break, as, w))"
  by pat_completeness auto
termination
  by (relation "measure (\<lambda>(this, adapter, request, m, p, retry, as, w).
                   maxRetries (retryConfig this) + 1 - retry)") auto

declare retryLoop.simps [simp del]

record RouteResult =
  response :: CompletionResponse
  attempts :: "Attempt list"

text \<open>\<^verbatim>\<open>attempts.map(attempt => ({ ..., error: attempt.error ?? new Error('Unknown error') }))\<close>\<close>

definition failureAttempt :: "Attempt \<Rightarrow> Attempt" where
  "failureAttempt a =
     \<lparr>Attempt.provider = Attempt.provider a, Attempt.model = Attempt.model a,
      success = success a,
      error = Some (case error a of Some e \<Rightarrow> e | None \<Rightarrow> newError ''Unknown error''),
      Attempt.latencyMs = Attempt.latencyMs a\<rparr>"

text \<open>
  The outer \<^verbatim>\<open>for (const { model, provider } of models)\<close> loop over the rest of the
  chain: the result when some entry returned, the attempts pushed, and the world.
\<close>

fun chainLoop ::
  "Router \<Rightarrow> CompletionRequest \<Rightarrow> (string \<times> ProviderName) list \<Rightarrow> Attempt list \<Rightarrow> World
     \<Rightarrow> RouteResult option \<times> Attempt list \<times> World" where
  "chainLoop this request [] as w = (None, as, w)"
| "chainLoop this request ((m, p) # models) as w =
     (case providers this p of
        None \<Rightarrow>
          chainLoop this request models
            (as @ [\<lparr>Attempt.provider = p, Attempt.model = m, success = False,
                    error = Some (newError (''Provider '' @ providerString p @ '' not configured'')),
                    Attempt.latencyMs = 0\<rparr>]) w
      | Some adapter \<Rightarrow>
          (case retryLoop this adapter request m p 0 as w of
             (Return r, as', w') \<Rightarrow> (Some \<lparr>response = r, RouteResult.attempts = as'\<rparr>, as', w')
           | (Break, as', w') \<Rightarrow> chainLoop this request models as' w'))"

definition route ::
  "Router \<Rightarrow> CompletionRequest \<Rightarrow> World \<Rightarrow> (AllProvidersFailedError + RouteResult) \<times> World" where
  "route this request w =
     (case chainLoop this request (buildModelChain request) [] w of
        (Some result, as, w') \<Rightarrow> (Inr result, w')
      | (None, as, w') \<Rightarrow> (Inl (newAllProvidersFailedError (map failureAttempt as)), w'))"

subsection \<open>routeStream\<close>

text \<open>
  \<^verbatim>\<open>if (chunk.meta) { chunk.meta.failoverAttempts = attempts.length; }\<close>
\<close>

definition augmentChunk :: "nat \<Rightarrow> StreamChunk \<Rightarrow> StreamChunk" where
  "augmentChunk n chunk =
     (case StreamChunk.meta chunk of
        None \<Rightarrow> chunk
      | Some pm \<Rightarrow> chunk\<lparr>StreamChunk.meta := Some (pm\<lparr>PartialMeta.failoverAttempts := Some n\<rparr>)\<rparr>)"

text \<open>
  The generator's loop over the rest of the chain. \<open>yielded\<close> are the chunks handed to the
  caller so far; the generator ends by returning (\<open>None\<close>) or by throwing. The
  \<^verbatim>\<open>try\<close> block encloses the whole \<^verbatim>\<open>for await\<close> loop, so its \<^verbatim>\<open>catch\<close>
  receives a failure of the stream wherever it happens.
\<close>

fun streamLoop ::
  "Router \<Rightarrow> CompletionRequest \<Rightarrow> (string \<times> ProviderName) list \<Rightarrow> Attempt list
     \<Rightarrow> StreamChunk list \<Rightarrow> World
     \<Rightarrow> (StreamChunk list \<times> AllProvidersFailedError option) \<times> World" where
  "streamLoop this request [] as yielded w =
     ((yielded, Some (newAllProvidersFailedError (map failureAttempt as))), w)"
| "streamLoop this request ((m, p) # models) as yielded w =
     (case providers this p of
        None \<Rightarrow> streamLoop this request models as yielded w
      | Some adapter \<Rightarrow>
          (let startTime = now w;
               run = stream adapter (request\<lparr>CompletionRequest.model := m\<rparr>) w;
               w' = w\<lparr>now := now w + elapsed run, effects := effects w @ [Streamed p m]\<rparr>;
               yielded' = yielded @ map (augmentChunk (length as)) (chunks run)
           in case failure run of
                None \<Rightarrow> ((yielded', None), w')
              | Some e \<Rightarrow>
                  streamLoop this request models
                    (as @ [\<lparr>Attempt.provider = p, Attempt.model = m, success = False,
                            error = Some e, Attempt.latencyMs = now w' - startTime\<rparr>])
                    yielded' w'))"

definition routeStream ::
  "Router \<Rightarrow> CompletionRequest \<Rightarrow> World
     \<Rightarrow> (StreamChunk list \<times> AllProvidersFailedError option) \<times> World" where
  "routeStream this request w = streamLoop this request (buildModelChain request) [] [] w"

section \<open>Tracer (src/tracing/tracer.ts)\<close>

record SpanContext =
  traceId :: string
  spanId :: string
  parentSpanId :: "string option"

record SpanEvent =
  name :: string
  timestamp :: nat
  attributes :: "(string \<times> JsValue) list option"

datatype SpanKind = KindClient | KindServer | KindInternal

datatype SpanStatus = StatusOk | StatusError | StatusUnset

text \<open>
  An attribute object is an association list in insertion order;
  \<^verbatim>\<open>attributes[key] = value\<close> is \<^const>\<open>AList.update\<close>. What is read from it is the
  value under a key. The order in which JavaScript enumerates keys (integer-like keys
  first) and the special key \<^verbatim>\<open>__proto__\<close> are not modelled.
\<close>

record SpanData =
  spanContext :: SpanContext
  name :: string
  kind :: SpanKind
  startTime :: nat
  endTime :: "nat option"
  status :: SpanStatus
  attributes :: "(string \<times> JsValue) list"
  events :: "SpanEvent list"

record TracingConfig =
  enabled :: bool
  exportEndpoint :: "string option"
  sampleRate :: "real option"
  includePrompts :: "bool option"
  includeResponses :: "bool option"

text \<open>
  A \<^verbatim>\<open>Span\<close> object holds a reference to its \<^verbatim>\<open>SpanData\<close> object, assigned once in
  the constructor. \<^verbatim>\<open>SpanData\<close> objects live in a heap, because the tracer's arrays
  hold references to them.
\<close>

record Span =
  data :: nat

text \<open>An error with its stack, as \<^verbatim>\<open>recordException\<close> reads it.\<close>

record Thrown = Error +
  stack :: JsValue

text \<open>
  The store: the runtime (\<^verbatim>\<open>Date.now()\<close>, the successive results of
  \<^verbatim>\<open>Math.random()\<close> and how a fraction prints in base 36, which is left to the
  runtime), the heap of \<^verbatim>\<open>SpanData\<close> objects, the children arrays of the spans, and
  the fields of the one \<^verbatim>\<open>Tracer\<close>. \<open>posted\<close> logs the bodies handed to
  \<^verbatim>\<open>fetch\<close>.
\<close>

record Store =
  clock :: nat
  random :: "nat \<Rightarrow> real"
  drawn :: nat
  fraction36 :: "real \<Rightarrow> string"
  heap :: "nat \<rightharpoonup> SpanData"
  allocated :: nat
  children :: "nat \<Rightarrow> Span list"
  config :: TracingConfig
  spans :: "nat list"
  spanStack :: "Span list"
  exportQueue :: "nat list"
  posted :: "SpanData list list"

text \<open>
  \<^verbatim>\<open>new Tracer(config)\<close> in a runtime. The export timer only calls \<open>flush\<close> from
  time to time; it is not part of the store.
\<close>

definition newTracer :: "TracingConfig \<Rightarrow> nat \<Rightarrow> (nat \<Rightarrow> real) \<Rightarrow> (real \<Rightarrow> string) \<Rightarrow> Store" where
  "newTracer cfg t rnd f36 =
     \<lparr>clock = t, random = rnd, drawn = 0, fraction36 = f36, heap = Map.empty, allocated = 0,
      children = (\<lambda>_. []), config = cfg, spans = [], spanStack = [], exportQueue = [],
      posted = []\<rparr>"

definition createNoopTracer :: "nat \<Rightarrow> (nat \<Rightarrow> real) \<Rightarrow> (real \<Rightarrow> string) \<Rightarrow> Store" where
  "createNoopTracer t rnd f36 =
     newTracer \<lparr>enabled = False, exportEndpoint = None, sampleRate = None,
                includePrompts = None, includeResponses = None\<rparr> t rnd f36"

text \<open>Time passes.\<close>

definition wait :: "nat \<Rightarrow> Store \<Rightarrow> Store" where
  "wait d st = st\<lparr>clock := clock st + d\<rparr>"

definition mathRandom :: "Store \<Rightarrow> real \<times> Store" where
  "mathRandom st = (random st (drawn st), st\<lparr>drawn := drawn st + 1\<rparr>)"

text \<open>\<^verbatim>\<open>n.toString(36)\<close> for a non-negative integer.\<close>

definition digit36 :: "nat \<Rightarrow> char" where
  "digit36 d = ''0123456789abcdefghijklmnopqrstuvwxyz'' ! d"

fun toString36 :: "nat \<Rightarrow> string" where
  "toString36 n =
     (if n < 36 then [digit36 n] else toString36 (n div 36) @ [digit36 (n mod 36)])"

declare toString36.simps [simp del]

text \<open>\<^verbatim>\<open>s.substring(2, 11)\<close>\<close>

definition substring_2_11 :: "string \<Rightarrow> string" where
  "substring_2_11 s = take 9 (drop 2 s)"

text \<open>Truthiness, as \<^verbatim>\<open>if (message)\<close> tests it.\<close>

fun truthy :: "JsValue \<Rightarrow> bool" where
  "truthy Undefined = False"
| "truthy Null = False"
| "truthy (JsString s) = (s \<noteq> [])"
| "truthy (JsNumber n) = (n \<noteq> 0)"
| "truthy (JsBoolean b) = b"
| "truthy (JsOther s b) = b"

subsection \<open>Span\<close>

definition generateId :: "Store \<Rightarrow> string \<times> Store" where
  "generateId st =
     (let (r, st') = mathRandom st
      in (toString36 (clock st) @ ''_'' @ substring_2_11 (fraction36 st r), st'))"

text \<open>
  The constructor. \<^verbatim>\<open>traceIdOverride ?? parentContext?.traceId ?? this.generateId()\<close>
  generates an id only when the two before it are missing; the span id is generated next,
  and the clock is read last.
\<close>

definition newSpan ::
  "string \<Rightarrow> SpanContext option \<Rightarrow> (string \<times> JsValue) list option \<Rightarrow> string option
     \<Rightarrow> Store \<Rightarrow> Span \<times> Store" where
  "newSpan nm parentContext attrs traceIdOverride st =
     (let (tid, st1) =
            (case traceIdOverride of
               Some t \<Rightarrow> (t, st)
             | None \<Rightarrow>
                 (case parentContext of
                    Some pc \<Rightarrow> (SpanContext.traceId pc, st)
                  | None \<Rightarrow> generateId st));
          (sid, st2) = generateId st1;
          d = \<lparr>spanContext = \<lparr>SpanContext.traceId = tid, SpanContext.spanId = sid,
                           parentSpanId = map_option SpanContext.spanId parentContext\<rparr>,
               SpanData.name = nm, kind = KindClient, startTime = clock st2, endTime = None,
               status = StatusUnset,
               SpanData.attributes = (case attrs of Some a \<Rightarrow> a | None \<Rightarrow> []),
               events = []\<rparr>;
          a = allocated st2
      in (\<lparr>data = a\<rparr>,
          st2\<lparr>heap := (heap st2)(a \<mapsto> d), allocated := a + 1,
              children := (children st2)(a := [])\<rparr>))"

text \<open>
  A method body that changes \<^verbatim>\<open>this.data\<close> in place. Every \<^verbatim>\<open>Span\<close> comes from the
  constructor, so its data object is in the heap; for any other address nothing happens.
\<close>

definition updateData :: "Span \<Rightarrow> (SpanData \<Rightarrow> SpanData) \<Rightarrow> Store \<Rightarrow> Store" where
  "updateData this f st =
     (case heap st (data this) of
        None \<Rightarrow> st
      | Some d \<Rightarrow> st\<lparr>heap := (heap st)(data this \<mapsto> f d)\<rparr>)"

definition getContext :: "Span \<Rightarrow> Store \<Rightarrow> SpanContext option" where
  "getContext this st = map_option spanContext (heap st (data this))"

definition getData :: "Span \<Rightarrow> Store \<Rightarrow> SpanData option" where
  "getData this st = heap st (data this)"

definition setAttribute :: "Span \<Rightarrow> string \<Rightarrow> JsValue \<Rightarrow> Store \<Rightarrow> Store" where
  "setAttribute this key v st =
     updateData this
       (\<lambda>d. d\<lparr>SpanData.attributes := AList.update key v (SpanData.attributes d)\<rparr>) st"

text \<open>\<^verbatim>\<open>Object.assign(target, source)\<close>\<close>

definition objectAssign ::
  "(string \<times> JsValue) list \<Rightarrow> (string \<times> JsValue) list \<Rightarrow> (string \<times> JsValue) list" where
  "objectAssign target source = fold (\<lambda>(k, v). AList.update k v) source target"

definition setAttributes :: "Span \<Rightarrow> (string \<times> JsValue) list \<Rightarrow> Store \<Rightarrow> Store" where
  "setAttributes this attrs st =
     updateData this
       (\<lambda>d. d\<lparr>SpanData.attributes := objectAssign (SpanData.attributes d) attrs\<rparr>) st"

definition addEvent :: "Span \<Rightarrow> string \<Rightarrow> (string \<times> JsValue) list option \<Rightarrow> Store \<Rightarrow> Store" where
  "addEvent this nm attrs st =
     updateData this
       (\<lambda>d. d\<lparr>events := events d @
                 [\<lparr>SpanEvent.name = nm, timestamp = clock st, SpanEvent.attributes = attrs\<rparr>]\<rparr>) st"

definition setStatus :: "Span \<Rightarrow> SpanStatus \<Rightarrow> JsValue \<Rightarrow> Store \<Rightarrow> Store" where
  "setStatus this s msg st =
     updateData this
       (\<lambda>d. let d' = d\<lparr>status := s\<rparr>
            in if truthy msg
               then d'\<lparr>SpanData.attributes :=
                         AList.update ''error.message'' msg (SpanData.attributes d')\<rparr>
               else d') st"

definition recordException :: "Span \<Rightarrow> Thrown \<Rightarrow> Store \<Rightarrow> Store" where
  "recordException this e st =
     addEvent this ''exception''
       (Some [(''exception.type'', JsString (Error.name e)),
              (''exception.message'', Error.message e),
              (''exception.stacktrace'', stack e)])
       (setStatus this StatusError (Error.message e) st)"

definition startChild ::
  "Span \<Rightarrow> string \<Rightarrow> (string \<times> JsValue) list option \<Rightarrow> Store \<Rightarrow> (Span \<times> Store) option" where
  "startChild this nm attrs st =
     (case heap st (data this) of
        None \<Rightarrow> None
      | Some d \<Rightarrow>
          (let (child, st') = newSpan nm (Some (spanContext d)) attrs None st
           in Some (child,
                    st'\<lparr>children := (children st')
                          (data this := children st' (data this) @ [child])\<rparr>)))"

subsection \<open>Tracer\<close>

definition shouldSample :: "Store \<Rightarrow> bool \<times> Store" where
  "shouldSample st =
     (if \<not> enabled (config st) then (False, st)
      else case sampleRate (config st) of
             None \<Rightarrow> (True, st)
           | Some rate \<Rightarrow> (let (r, st') = mathRandom st in (r < rate, st')))"

text \<open>
  \<^verbatim>\<open>flush\<close> up to its \<^verbatim>\<open>await\<close>: the queue is drained and the batch is serialised
  for \<^verbatim>\<open>fetch\<close> as the objects are at this moment. When the request fails, the batch is
  put back in front (\<open>flushFailed\<close>).
\<close>

definition flush :: "Store \<Rightarrow> Store" where
  "flush st =
     (if exportEndpoint (config st) \<in> {None, Some []} \<or> exportQueue st = [] then st
      else st\<lparr>exportQueue := [],
              posted := posted st @ [List.map_filter (heap st) (exportQueue st)]\<rparr>)"

definition flushFailed :: "nat list \<Rightarrow> Store \<Rightarrow> Store" where
  "flushFailed toExport st = st\<lparr>exportQueue := toExport @ exportQueue st\<rparr>"

text \<open>\<^verbatim>\<open>recordSpan(data)\<close> receives the reference it is given and pushes that reference.\<close>

definition recordSpan :: "nat \<Rightarrow> Store \<Rightarrow> Store" where
  "recordSpan d st =
     (let (sampled, st1) = shouldSample st
      in if \<not> sampled then st1
         else (let st2 = st1\<lparr>spans := spans st1 @ [d], exportQueue := exportQueue st1 @ [d]\<rparr>
               in if length (exportQueue st2) \<ge> 100 then flush st2 else st2))"

text \<open>\<^verbatim>\<open>lastIndexOf\<close> and \<^verbatim>\<open>splice(index, 1)\<close>: the last occurrence is removed.\<close>

definition endSpan :: "Span \<Rightarrow> Store \<Rightarrow> Store" where
  "endSpan sp st = st\<lparr>spanStack := rev (remove1 sp (rev (spanStack st)))\<rparr>"

definition end_span :: "Span \<Rightarrow> Store \<Rightarrow> Store" where
  "end_span this st =
     endSpan this
       (recordSpan (data this)
          (updateData this
             (\<lambda>d. let d' = d\<lparr>endTime := Some (clock st)\<rparr>
                  in if status d' = StatusUnset then d'\<lparr>status := StatusOk\<rparr> else d') st))"

definition currentSpan :: "Store \<Rightarrow> Span option" where
  "currentSpan st = (if spanStack st = [] then None else Some (last (spanStack st)))"

text \<open>
  \<^verbatim>\<open>startSpan(name, attributes, options)\<close>, with the two options as arguments.
  \<^verbatim>\<open>options?.traceId ? undefined : ...\<close> tests the trace id for truthiness.
\<close>

definition startSpan ::
  "string \<Rightarrow> (string \<times> JsValue) list option \<Rightarrow> SpanContext option \<Rightarrow> string option
     \<Rightarrow> Store \<Rightarrow> Span \<times> Store" where
  "startSpan nm attrs optParentContext optTraceId st =
     (let parentContext =
            (case optParentContext of
               Some pc \<Rightarrow> Some pc
             | None \<Rightarrow>
                 if optTraceId \<notin> {None, Some []} then None
                 else (case currentSpan st of
                         None \<Rightarrow> None
                       | Some cur \<Rightarrow> getContext cur st));
          (sp, st') = newSpan nm parentContext attrs optTraceId st
      in (sp, st'\<lparr>spanStack := spanStack st' @ [sp]\<rparr>))"

definition getSpans :: "Store \<Rightarrow> nat list" where
  "getSpans st = spans st"

definition clearSpans :: "Store \<Rightarrow> Store" where
  "clearSpans st = st\<lparr>spans := []\<rparr>"

subsection \<open>Sequences of calls on one span\<close>

datatype SpanCall =
    SetAttribute string JsValue
  | SetAttributes "(string \<times> JsValue) list"
  | AddEvent string "(string \<times> JsValue) list option"
  | SetStatus SpanStatus JsValue
  | RecordException Thrown
  | End
  | Wait nat

fun call :: "Span \<Rightarrow> SpanCall \<Rightarrow> Store \<Rightarrow> Store" where
  "call this (SetAttribute k v) st = setAttribute this k v st"
| "call this (SetAttributes attrs) st = setAttributes this attrs st"
| "call this (AddEvent nm attrs) st = addEvent this nm attrs st"
| "call this (SetStatus s msg) st = setStatus this s msg st"
| "call this (RecordException e) st = recordException this e st"
| "call this End st = end_span this st"
| "call this (Wait d) st = wait d st"

definition calls :: "Span \<Rightarrow> SpanCall list \<Rightarrow> Store \<Rightarrow> Store" where
  "calls this cs st = fold (call this) cs st"

section \<open>Fixtures of the test suite (tests/utils/mocks.ts, tests/routing/router.test.ts)\<close>

definition createMockRequest :: "string \<Rightarrow> string list option \<Rightarrow> CompletionRequest" where
  "createMockRequest m fb =
     \<lparr>CompletionRequest.model = m, messages = [(''user'', ''Hello, world!'')],
      fallback = fb, timeout = None\<rparr>"

definition createMockResponse :: "ProviderName \<Rightarrow> CompletionResponse" where
  "createMockResponse p =
     \<lparr>CompletionResponse.content = ''Test response content'',
      CompletionResponse.finishReason = ''stop'',
      CompletionResponse.meta =
        \<lparr>CompletionMeta.latencyMs = 150, CompletionMeta.traceId = ''trace_test_0'',
         CompletionMeta.spanId = ''span_test_0'', CompletionMeta.model = ''test-model'',
         CompletionMeta.provider = p, CompletionMeta.cached = False,
         CompletionMeta.failoverAttempts = 0\<rparr>\<rparr>"

definition createMockRateLimitError :: "ProviderName \<Rightarrow> Error" where
  "createMockRateLimitError p =
     (newError (''Rate limit exceeded for '' @ providerString p))
       \<lparr>Error.code := JsString ''RATE_LIMIT'', Error.status := JsNumber 429\<rparr>"

definition createMockNetworkError :: Error where
  "createMockNetworkError = (newError ''Network error'')\<lparr>Error.code := JsString ''NETWORK_ERROR''\<rparr>"

text \<open>
  The errors of the tests \<^verbatim>\<open>should_notRetry_when_errorNotRetryable\<close> and
  \<^verbatim>\<open>should_identifyRetryableErrors_when_checkingStatus\<close>, and an error that names a
  retryable status in its message only.
\<close>

definition badRequestError :: Error where
  "badRequestError =
     (newError ''Bad request'')\<lparr>Error.code := JsString ''BAD_REQUEST'', Error.status := JsNumber 400\<rparr>"

definition serviceUnavailableError :: Error where
  "serviceUnavailableError = (newError ''Service unavailable'')\<lparr>Error.statusCode := JsNumber 503\<rparr>"

definition overloadedError :: Error where
  "overloadedError = newError ''Model overloaded (529)''"

definition contentChunk :: "string \<Rightarrow> StreamChunk" where
  "contentChunk s =
     \<lparr>StreamChunk.content = Some s, StreamChunk.finishReason = None, StreamChunk.meta = None\<rparr>"

definition finalChunk :: "ProviderName \<Rightarrow> StreamChunk" where
  "finalChunk p =
     \<lparr>StreamChunk.content = None, StreamChunk.finishReason = Some ''stop'',
      StreamChunk.meta =
        Some \<lparr>PartialMeta.latencyMs = Some 150, PartialMeta.traceId = None,
              PartialMeta.spanId = None, PartialMeta.model = Some ''test-model'',
              PartialMeta.provider = Some p, PartialMeta.cached = None,
              PartialMeta.failoverAttempts = None\<rparr>\<rparr>"

text \<open>\<^verbatim>\<open>createMockProviderAdapter(name)\<close>: every call succeeds.\<close>

definition createMockProviderAdapter :: "ProviderName \<Rightarrow> ProviderAdapter" where
  "createMockProviderAdapter p =
     \<lparr>ProviderAdapter.name = p,
      complete = (\<lambda>request w. Resolves 150 (createMockResponse p)),
      stream = (\<lambda>request w.
        \<lparr>chunks = [contentChunk ''Mock '', contentChunk ''stream '', contentChunk ''response'',
                    finalChunk p],
         failure = None, elapsed = 150\<rparr>)\<rparr>"

text \<open>
  An adapter after \<^verbatim>\<open>complete.mockRejectedValue(e)\<close> and a \<^verbatim>\<open>stream\<close> mock that
  throws \<open>e\<close> before its first chunk.
\<close>

definition rejectingAdapter :: "ProviderName \<Rightarrow> Error \<Rightarrow> ProviderAdapter" where
  "rejectingAdapter p e =
     \<lparr>ProviderAdapter.name = p,
      complete = (\<lambda>request w. Rejects 1 e),
      stream = (\<lambda>request w. \<lparr>chunks = [], failure = Some e, elapsed = 1\<rparr>)\<rparr>"

text \<open>An adapter whose stream yields one content chunk and then throws \<open>e\<close>.\<close>

definition breakingAdapter :: "ProviderName \<Rightarrow> Error \<Rightarrow> ProviderAdapter" where
  "breakingAdapter p e =
     \<lparr>ProviderAdapter.name = p,
      complete = (\<lambda>request w. Rejects 1 e),
      stream = (\<lambda>request w. \<lparr>chunks = [contentChunk ''Partial ''], failure = Some e,
                               elapsed = 1\<rparr>)\<rparr>"

text \<open>The retry settings of the suite, merged over the defaults, and its router.\<close>

definition testRetryConfig :: RetryConfig where
  "testRetryConfig =
     DEFAULT_RETRY_CONFIG\<lparr>maxRetries := 2, initialDelayMs := 10, maxDelayMs := 50,
                           backoffMultiplier := 2\<rparr>"

definition testRouter :: "(ProviderName \<rightharpoonup> ProviderAdapter) \<Rightarrow> Router" where
  "testRouter ps = \<lparr>providers = ps, retryConfig = testRetryConfig, defaultTimeout = 5000\<rparr>"

definition world0 :: World where
  "world0 = \<lparr>now = 0, effects = []\<rparr>"

text \<open>The same router with an empty set of retryable tokens.\<close>

definition strictRouter :: "(ProviderName \<rightharpoonup> ProviderAdapter) \<Rightarrow> Router" where
  "strictRouter ps =
     \<lparr>providers = ps, retryConfig = testRetryConfig\<lparr>retryableErrors := []\<rparr>,
      defaultTimeout = 5000\<rparr>"

text \<open>
  The tracer of the suite (\<^verbatim>\<open>new Tracer({ enabled: true })\<close>) in a runtime whose clock
  shows 1000, with a span started on it and ended five milliseconds later.
\<close>

definition testTracingConfig :: TracingConfig where
  "testTracingConfig =
     \<lparr>enabled = True, exportEndpoint = None, sampleRate = None, includePrompts = None,
      includeResponses = None\<rparr>"

definition testStore :: Store where
  "testStore = newTracer testTracingConfig 1000 (\<lambda>_. 1 / 2) (\<lambda>_. ''0.i'')"

definition testSpan :: Span where
  "testSpan = fst (startSpan ''test-operation'' None None None testStore)"

definition startedStore :: Store where
  "startedStore = snd (startSpan ''test-operation'' None None None testStore)"

definition endedStore :: Store where
  "endedStore = end_span testSpan (wait 5 startedStore)"

text \<open>What a reader of \<^verbatim>\<open>getSpans()\<close> sees: the objects the references point to.\<close>

definition recordedData :: "Store \<Rightarrow> SpanData list" where
  "recordedData st = List.map_filter (heap st) (getSpans st)"

section \<open>Properties of the router\<close>

subsection \<open>Strings\<close>

lemma startsWith_prefix: "startsWith s p \<longleftrightarrow> prefix p s"
  by (induction s p rule: startsWith.induct) auto

lemma includesStr_sublist: "includesStr s p \<longleftrightarrow> sublist p s"
  by (induction s) (auto simp: startsWith_prefix sublist_Cons_right)

subsection \<open>One pass of the retry loop\<close>

lemma awaitComplete_effects:
  "awaitComplete this adapter request m p w = (outcome, w1) \<Longrightarrow>
     effects w1 = effects w @ [Invoked p m] \<and> now w \<le> now w1"
  by (auto simp: awaitComplete_def Let_def split: prod.splits)

lemma retryLoop_return:
  assumes "retry \<le> maxRetries (retryConfig this)"
      and "awaitComplete this adapter request m p w = (Inr r, w1)"
  shows "retryLoop this adapter request m p retry as w =
           (Return (r\<lparr>CompletionResponse.meta :=
                        (CompletionResponse.meta r)\<lparr>CompletionMeta.failoverAttempts := length as\<rparr>\<rparr>),
            as @ [\<lparr>Attempt.provider = p, Attempt.model = m, success = True,
                   error = None, Attempt.latencyMs = now w1 - now w\<rparr>],
            w1)"
  using assms by (subst retryLoop.simps) simp

lemma retryLoop_break:
  assumes "retry \<le> maxRetries (retryConfig this)"
      and "awaitComplete this adapter request m p w = (Inl e, w1)"
      and "\<not> isRetryable this e \<or> retry = maxRetries (retryConfig this)"
  shows "retryLoop this adapter request m p retry as w =
           (Break,
            as @ [\<lparr>Attempt.provider = p, Attempt.model = m, success = False,
                   error = Some e, Attempt.latencyMs = now w1 - now w\<rparr>],
            w1)"
  using assms by (subst retryLoop.simps) auto

lemma retryLoop_again:
  assumes "retry < maxRetries (retryConfig this)"
      and "awaitComplete this adapter request m p w = (Inl e, w1)"
      and "isRetryable this e"
  shows "retryLoop this adapter request m p retry as w =
           retryLoop this adapter request m p (retry + 1)
             (as @ [\<lparr>Attempt.provider = p, Attempt.model = m, success = False,
                     error = Some e, Attempt.latencyMs = now w1 - now w\<rparr>])
             (sleep (backoffDelay this retry) w1)"
  using assms by (subst retryLoop.simps) auto


lemma sleep_effects: "effects (sleep d w) = effects w @ [Slept d]"
  by (simp add: sleep_def)

lemma retryLoop_shape:
  assumes "retryLoop this adapter request m p retry as w = (exit, as', w')"
      and "retry \<le> maxRetries (retryConfig this)"
  shows "\<exists>new. as' = as @ new \<and> new \<noteq> []
      \<and> retry + length new \<le> maxRetries (retryConfig this) + 1
      \<and> (\<forall>a\<in>set new. Attempt.provider a = p \<and> Attempt.model a = m)
      \<and> (\<forall>a\<in>set (butlast new). \<not> success a \<and> (\<exists>e. error a = Some e \<and> isRetryable this e))
      \<and> (case exit of
            Break \<Rightarrow> \<not> success (last new) \<and>
               (\<exists>e. error (last new) = Some e \<and>
                  (\<not> isRetryable this e \<or> retry + length new = maxRetries (retryConfig this) + 1))
          | Return r \<Rightarrow> success (last new) \<and> error (last new) = None \<and>
               CompletionMeta.failoverAttempts (CompletionResponse.meta r) = length as + length new - 1)
      \<and> effects w' = effects w
            @ concat (map (\<lambda>k. [Invoked p m, Slept (backoffDelay this k)])
                          [retry..<retry + length new - 1])
            @ [Invoked p m]"
  using assms
proof (induction "maxRetries (retryConfig this) - retry" arbitrary: retry as w)
  case 0
  then have top: "retry = maxRetries (retryConfig this)" by simp
  obtain outcome w1 where aw: "awaitComplete this adapter request m p w = (outcome, w1)"
    by (cases "awaitComplete this adapter request m p w")
  note eff = awaitComplete_effects [OF aw]
  show ?case
  proof (cases outcome)
    case (Inl e)
    with aw top "0.prems" retryLoop_break [of retry this adapter request m p w e w1 as]
    have "exit = Break" and
      "as' = as @ [\<lparr>Attempt.provider = p, Attempt.model = m, success = False,
                     error = Some e, Attempt.latencyMs = now w1 - now w\<rparr>]" and "w' = w1"
      by auto
    with eff top show ?thesis by simp
  next
    case (Inr r)
    with aw "0.prems" retryLoop_return [of retry this adapter request m p w r w1 as]
    have "exit = Return (r\<lparr>CompletionResponse.meta :=
                        (CompletionResponse.meta r)\<lparr>CompletionMeta.failoverAttempts := length as\<rparr>\<rparr>)" and
      "as' = as @ [\<lparr>Attempt.provider = p, Attempt.model = m, success = True,
                   error = None, Attempt.latencyMs = now w1 - now w\<rparr>]" and "w' = w1"
      by auto
    with eff "0.prems" show ?thesis by simp
  qed
next
  case (Suc k)
  then have lt: "retry < maxRetries (retryConfig this)" by simp
  obtain outcome w1 where aw: "awaitComplete this adapter request m p w = (outcome, w1)"
    by (cases "awaitComplete this adapter request m p w")
  note eff = awaitComplete_effects [OF aw]
  show ?case
  proof (cases outcome)
    case (Inr r)
    with aw Suc.prems retryLoop_return [of retry this adapter request m p w r w1 as]
    have "exit = Return (r\<lparr>CompletionResponse.meta :=
                        (CompletionResponse.meta r)\<lparr>CompletionMeta.failoverAttempts := length as\<rparr>\<rparr>)" and
      "as' = as @ [\<lparr>Attempt.provider = p, Attempt.model = m, success = True,
                   error = None, Attempt.latencyMs = now w1 - now w\<rparr>]" and "w' = w1"
      by auto
    with eff Suc.prems show ?thesis by simp
  next
    case (Inl e)
    show ?thesis
    proof (cases "isRetryable this e")
      case False
      with Inl aw Suc.prems retryLoop_break [of retry this adapter request m p w e w1 as]
      have "exit = Break" and
        "as' = as @ [\<lparr>Attempt.provider = p, Attempt.model = m, success = False,
                       error = Some e, Attempt.latencyMs = now w1 - now w\<rparr>]" and "w' = w1"
        by auto
      with eff False Suc.prems show ?thesis by simp
    next
      case True
      let ?a = "\<lparr>Attempt.provider = p, Attempt.model = m, success = False,
                   error = Some e, Attempt.latencyMs = now w1 - now w\<rparr>"
      let ?w2 = "sleep (backoffDelay this retry) w1"
      from True Inl aw lt Suc.prems retryLoop_again [of retry this adapter request m p w e w1 as]
      have next_run: "retryLoop this adapter request m p (retry + 1) (as @ [?a]) ?w2 = (exit, as', w')"
        by simp
      have k: "k = maxRetries (retryConfig this) - (retry + 1)"
        using Suc.hyps(2) by simp
      from Suc.hyps(1) [OF k next_run] lt
      obtain new where new:
        "as' = (as @ [?a]) @ new" "new \<noteq> []"
        "retry + 1 + length new \<le> maxRetries (retryConfig this) + 1"
        "\<forall>a\<in>set new. Attempt.provider a = p \<and> Attempt.model a = m"
        "\<forall>a\<in>set (butlast new). \<not> success a \<and> (\<exists>e. error a = Some e \<and> isRetryable this e)"
        "case exit of
            Break \<Rightarrow> \<not> success (last new) \<and>
               (\<exists>e. error (last new) = Some e \<and>
                  (\<not> isRetryable this e \<or> retry + 1 + length new = maxRetries (retryConfig this) + 1))
          | Return r \<Rightarrow> success (last new) \<and> error (last new) = None \<and>
               CompletionMeta.failoverAttempts (CompletionResponse.meta r) = length (as @ [?a]) + length new - 1"
        "effects w' = effects ?w2
            @ concat (map (\<lambda>k. [Invoked p m, Slept (backoffDelay this k)])
                          [retry + 1..<retry + 1 + length new - 1])
            @ [Invoked p m]"
        by auto
      have upt: "[retry..<retry + length (?a # new) - 1] = retry # [retry + 1..<retry + 1 + length new - 1]"
        using new(2) by (cases new) (simp_all add: upt_rec)
      have "as' = as @ (?a # new)" using new(1) by simp
      moreover have "?a # new \<noteq> []" by simp
      moreover have "retry + length (?a # new) \<le> maxRetries (retryConfig this) + 1"
        using new(3) by simp
      moreover have "\<forall>a\<in>set (?a # new). Attempt.provider a = p \<and> Attempt.model a = m"
        using new(4) by simp
      moreover have "\<forall>a\<in>set (butlast (?a # new)). \<not> success a \<and> (\<exists>e. error a = Some e \<and> isRetryable this e)"
        using new(2,5) True by simp
      moreover have "case exit of
            Break \<Rightarrow> \<not> success (last (?a # new)) \<and>
               (\<exists>e. error (last (?a # new)) = Some e \<and>
                  (\<not> isRetryable this e \<or> retry + length (?a # new) = maxRetries (retryConfig this) + 1))
          | Return r \<Rightarrow> success (last (?a # new)) \<and> error (last (?a # new)) = None \<and>
               CompletionMeta.failoverAttempts (CompletionResponse.meta r) = length as + length (?a # new) - 1"
        using new(2,6) by (cases exit) simp_all
      moreover have "effects w' = effects w
            @ concat (map (\<lambda>k. [Invoked p m, Slept (backoffDelay this k)])
                          [retry..<retry + length (?a # new) - 1])
            @ [Invoked p m]"
        unfolding upt using new(7) eff by (simp add: sleep_effects)
      ultimately show ?thesis by blast
    qed
  qed
qed

subsection \<open>The calls of one entry, one by one\<close>

text \<open>
  A step is a call of the adapter: the world it is made in, its outcome, and the world after
  it. The retry loop makes its first call in the world it starts in and each further call in
  the world after the previous one followed by one sleep; it ends in the world after its
  last call.
\<close>

lemma steps_single:
  assumes "awaitComplete this adapter request m p w = (outcome, w1)"
      and "retry \<le> maxRetries (retryConfig this)"
      and "as' = as @ [\<lparr>Attempt.provider = p, Attempt.model = m, success = \<not> isl outcome,
                   error = (case outcome of Inl e \<Rightarrow> Some e | Inr r \<Rightarrow> None),
                   Attempt.latencyMs = now w1 - now w\<rparr>]"
      and "case outcome of
            Inr r \<Rightarrow> exit \<noteq> Break
          | Inl e \<Rightarrow> exit = Break
               \<and> (\<not> isRetryable this e \<or> retry = maxRetries (retryConfig this))"
  shows "\<exists>steps. steps \<noteq> []
      \<and> retry + length steps \<le> maxRetries (retryConfig this) + 1
      \<and> as' = as @ map (\<lambda>(u, out, u1).
                  \<lparr>Attempt.provider = p, Attempt.model = m, success = \<not> isl out,
                   error = (case out of Inl e \<Rightarrow> Some e | Inr r \<Rightarrow> None),
                   Attempt.latencyMs = now u1 - now u\<rparr>) steps
      \<and> (\<forall>(u, out, u1)\<in>set steps. awaitComplete this adapter request m p u = (out, u1))
      \<and> map fst steps
            = w # map2 (\<lambda>k (u, out, u1). sleep (backoffDelay this k) u1)
                       [retry..<retry + length steps - 1] (butlast steps)
      \<and> w1 = snd (snd (last steps))
      \<and> (\<forall>(u, out, u1)\<in>set (butlast steps). \<exists>e. out = Inl e \<and> isRetryable this e)
      \<and> (case fst (snd (last steps)) of
            Inr r \<Rightarrow> exit \<noteq> Break
          | Inl e \<Rightarrow> exit = Break
               \<and> (\<not> isRetryable this e \<or> retry + length steps = maxRetries (retryConfig this) + 1))"
  apply (rule exI [of _ "[(w, outcome, w1)]"])
  using assms apply (simp split: sum.splits)
  done

lemma retryLoop_steps:
  assumes "retryLoop this adapter request m p retry as w = (exit, as', w')"
      and "retry \<le> maxRetries (retryConfig this)"
  shows "\<exists>steps. steps \<noteq> []
      \<and> retry + length steps \<le> maxRetries (retryConfig this) + 1
      \<and> as' = as @ map (\<lambda>(u, out, u1).
                  \<lparr>Attempt.provider = p, Attempt.model = m, success = \<not> isl out,
                   error = (case out of Inl e \<Rightarrow> Some e | Inr r \<Rightarrow> None),
                   Attempt.latencyMs = now u1 - now u\<rparr>) steps
      \<and> (\<forall>(u, out, u1)\<in>set steps. awaitComplete this adapter request m p u = (out, u1))
      \<and> map fst steps
            = w # map2 (\<lambda>k (u, out, u1). sleep (backoffDelay this k) u1)
                       [retry..<retry + length steps - 1] (butlast steps)
      \<and> w' = snd (snd (last steps))
      \<and> (\<forall>(u, out, u1)\<in>set (butlast steps). \<exists>e. out = Inl e \<and> isRetryable this e)
      \<and> (case fst (snd (last steps)) of
            Inr r \<Rightarrow> exit \<noteq> Break
          | Inl e \<Rightarrow> exit = Break
               \<and> (\<not> isRetryable this e \<or> retry + length steps = maxRetries (retryConfig this) + 1))"
  using assms
proof (induction "maxRetries (retryConfig this) - retry" arbitrary: retry as w)
  case 0
  then have top: "retry = maxRetries (retryConfig this)" by simp
  obtain outcome w1 where aw: "awaitComplete this adapter request m p w = (outcome, w1)"
    by (cases "awaitComplete this adapter request m p w")
  have "as' = as @ [\<lparr>Attempt.provider = p, Attempt.model = m, success = \<not> isl outcome,
                   error = (case outcome of Inl e \<Rightarrow> Some e | Inr r \<Rightarrow> None),
                   Attempt.latencyMs = now w1 - now w\<rparr>] \<and> w' = w1 \<and>
        (case outcome of Inr r \<Rightarrow> exit \<noteq> Break
          | Inl e \<Rightarrow> exit = Break
               \<and> (\<not> isRetryable this e \<or> retry = maxRetries (retryConfig this)))"
  proof (cases outcome)
    case (Inl e)
    with aw top "0.prems"(1) retryLoop_break [of retry this adapter request m p w e w1 as]
    show ?thesis by auto
  next
    case (Inr r)
    with aw "0.prems" retryLoop_return [of retry this adapter request m p w r w1 as]
    show ?thesis by auto
  qed
  then have "as' = as @ [\<lparr>Attempt.provider = p, Attempt.model = m, success = \<not> isl outcome,
                   error = (case outcome of Inl e \<Rightarrow> Some e | Inr r \<Rightarrow> None),
                   Attempt.latencyMs = now w1 - now w\<rparr>]" "w' = w1"
    "case outcome of Inr r \<Rightarrow> exit \<noteq> Break
          | Inl e \<Rightarrow> exit = Break
               \<and> (\<not> isRetryable this e \<or> retry = maxRetries (retryConfig this))"
    by simp_all
  from steps_single [OF aw "0.prems"(2) this(1,3)] this(2) show ?case by simp
next
  case (Suc k)
  then have lt: "retry < maxRetries (retryConfig this)" by simp
  obtain outcome w1 where aw: "awaitComplete this adapter request m p w = (outcome, w1)"
    by (cases "awaitComplete this adapter request m p w")
  show ?case
  proof (cases "\<exists>e. outcome = Inl e \<and> isRetryable this e")
    case False
    have "as' = as @ [\<lparr>Attempt.provider = p, Attempt.model = m, success = \<not> isl outcome,
                   error = (case outcome of Inl e \<Rightarrow> Some e | Inr r \<Rightarrow> None),
                   Attempt.latencyMs = now w1 - now w\<rparr>] \<and> w' = w1 \<and>
        (case outcome of Inr r \<Rightarrow> exit \<noteq> Break
          | Inl e \<Rightarrow> exit = Break
               \<and> (\<not> isRetryable this e \<or> retry = maxRetries (retryConfig this)))"
    proof (cases outcome)
      case (Inl e)
      with False have "\<not> isRetryable this e" by simp
      with Inl aw Suc.prems(1) lt retryLoop_break [of retry this adapter request m p w e w1 as]
      show ?thesis by auto
    next
      case (Inr r)
      with aw Suc.prems retryLoop_return [of retry this adapter request m p w r w1 as]
      show ?thesis by auto
    qed
    then have "as' = as @ [\<lparr>Attempt.provider = p, Attempt.model = m, success = \<not> isl outcome,
                   error = (case outcome of Inl e \<Rightarrow> Some e | Inr r \<Rightarrow> None),
                   Attempt.latencyMs = now w1 - now w\<rparr>]" "w' = w1"
      "case outcome of Inr r \<Rightarrow> exit \<noteq> Break
          | Inl e \<Rightarrow> exit = Break
               \<and> (\<not> isRetryable this e \<or> retry = maxRetries (retryConfig this))"
      by simp_all
    from steps_single [OF aw Suc.prems(2) this(1,3)] this(2) show ?thesis by simp
  next
    case True
    then obtain e where Inl: "outcome = Inl e" and retryable: "isRetryable this e" by blast
    let ?a = "\<lparr>Attempt.provider = p, Attempt.model = m, success = False,
                 error = Some e, Attempt.latencyMs = now w1 - now w\<rparr>"
    let ?w2 = "sleep (backoffDelay this retry) w1"
    let ?P = "\<lambda>steps retry (w :: World) (as :: Attempt list). steps \<noteq> []
      \<and> retry + length steps \<le> maxRetries (retryConfig this) + 1
      \<and> as' = as @ map (\<lambda>(u, out, u1).
                  \<lparr>Attempt.provider = p, Attempt.model = m, success = \<not> isl out,
                   error = (case out of Inl e \<Rightarrow> Some e | Inr r \<Rightarrow> None),
                   Attempt.latencyMs = now u1 - now u\<rparr>) steps
      \<and> (\<forall>(u, out, u1)\<in>set steps. awaitComplete this adapter request m p u = (out, u1))
      \<and> map fst steps
            = w # map2 (\<lambda>k (u, out, u1). sleep (backoffDelay this k) u1)
                       [retry..<retry + length steps - 1] (butlast steps)
      \<and> w' = snd (snd (last steps))
      \<and> (\<forall>(u, out, u1)\<in>set (butlast steps). \<exists>e. out = Inl e \<and> isRetryable this e)
      \<and> (case fst (snd (last steps)) of
            Inr r \<Rightarrow> exit \<noteq> Break
          | Inl e \<Rightarrow> exit = Break
               \<and> (\<not> isRetryable this e \<or> retry + length steps = maxRetries (retryConfig this) + 1))"
    from retryable Inl aw lt Suc.prems(1) retryLoop_again [of retry this adapter request m p w e w1 as]
    have next_run: "retryLoop this adapter request m p (retry + 1) (as @ [?a]) ?w2 = (exit, as', w')"
      by simp
    have k: "k = maxRetries (retryConfig this) - (retry + 1)"
      using Suc.hyps(2) by simp
    from lt have le: "retry + 1 \<le> maxRetries (retryConfig this)" by simp
    from Suc.hyps(1) [OF k next_run le]
    obtain steps where all: "?P steps (retry + 1) ?w2 (as @ [?a])" ..
    then have st: "steps \<noteq> []"
        "retry + 1 + length steps \<le> maxRetries (retryConfig this) + 1"
        "as' = (as @ [?a]) @ map (\<lambda>(u, out, u1).
                  \<lparr>Attempt.provider = p, Attempt.model = m, success = \<not> isl out,
                   error = (case out of Inl e \<Rightarrow> Some e | Inr r \<Rightarrow> None),
                   Attempt.latencyMs = now u1 - now u\<rparr>) steps"
        "\<forall>(u, out, u1)\<in>set steps. awaitComplete this adapter request m p u = (out, u1)"
        "map fst steps
            = ?w2 # map2 (\<lambda>k (u, out, u1). sleep (backoffDelay this k) u1)
                       [retry + 1..<retry + 1 + length steps - 1] (butlast steps)"
        "w' = snd (snd (last steps))"
        "\<forall>(u, out, u1)\<in>set (butlast steps). \<exists>e. out = Inl e \<and> isRetryable this e"
        "case fst (snd (last steps)) of
            Inr r \<Rightarrow> exit \<noteq> Break
          | Inl e \<Rightarrow> exit = Break
               \<and> (\<not> isRetryable this e \<or> retry + 1 + length steps = maxRetries (retryConfig this) + 1)"
      by (rule conjunct1, rule conjunct2 [THEN conjunct1],
          rule conjunct2 [THEN conjunct2, THEN conjunct1],
          rule conjunct2 [THEN conjunct2, THEN conjunct2, THEN conjunct1],
          rule conjunct2 [THEN conjunct2, THEN conjunct2, THEN conjunct2, THEN conjunct1],
          rule conjunct2 [THEN conjunct2, THEN conjunct2, THEN conjunct2, THEN conjunct2, THEN conjunct1],
          rule conjunct2 [THEN conjunct2, THEN conjunct2, THEN conjunct2, THEN conjunct2, THEN conjunct2, THEN conjunct1],
          rule conjunct2 [THEN conjunct2, THEN conjunct2, THEN conjunct2, THEN conjunct2, THEN conjunct2, THEN conjunct2])
    let ?steps = "(w, outcome, w1) # steps"
    have upt: "[retry..<retry + length ?steps - 1] = retry # [retry + 1..<retry + 1 + length steps - 1]"
      using st(1) by (cases steps) (simp_all add: upt_rec)
    have bl: "butlast ?steps = (w, outcome, w1) # butlast steps" using st(1) by simp
    have 1: "?steps \<noteq> []" by simp
    have 2: "retry + length ?steps \<le> maxRetries (retryConfig this) + 1" using st(2) by simp
    have 3: "as' = as @ map (\<lambda>(u, out, u1).
                  \<lparr>Attempt.provider = p, Attempt.model = m, success = \<not> isl out,
                   error = (case out of Inl e \<Rightarrow> Some e | Inr r \<Rightarrow> None),
                   Attempt.latencyMs = now u1 - now u\<rparr>) ?steps"
      using st(3) Inl by simp
    have 4: "\<forall>(u, out, u1)\<in>set ?steps. awaitComplete this adapter request m p u = (out, u1)"
      using st(4) aw by simp
    have 5: "map fst ?steps
          = w # map2 (\<lambda>k (u, out, u1). sleep (backoffDelay this k) u1)
                     [retry..<retry + length ?steps - 1] (butlast ?steps)"
      unfolding upt bl using st(5) by simp
    have 6: "w' = snd (snd (last ?steps))" using st(1,6) by simp
    have 7: "\<forall>(u, out, u1)\<in>set (butlast ?steps). \<exists>e. out = Inl e \<and> isRetryable this e"
      unfolding bl using st(7) Inl retryable by simp
    have 8: "case fst (snd (last ?steps)) of
          Inr r \<Rightarrow> exit \<noteq> Break
        | Inl e \<Rightarrow> exit = Break
             \<and> (\<not> isRetryable this e \<or> retry + length ?steps = maxRetries (retryConfig this) + 1)"
    proof (cases "fst (snd (last steps))")
      case (Inl e')
      with st(1,8) show ?thesis by simp
    next
      case (Inr r)
      with st(1,8) show ?thesis by simp
    qed
    show ?thesis
      by (rule exI [of _ ?steps]) (intro conjI 1 2 3 4 5 6 7 8)
  qed
qed


subsection \<open>An entry that always fails with a retryable error\<close>

lemma retryLoop_always_retryable:
  assumes fails: "\<forall>w. \<exists>e. fst (awaitComplete this adapter request m p w) = Inl e \<and> isRetryable this e"
      and "retry \<le> maxRetries (retryConfig this)"
  shows "\<exists>new w'. retryLoop this adapter request m p retry as w = (Break, as @ new, w')
           \<and> length new = maxRetries (retryConfig this) + 1 - retry
           \<and> (\<forall>a\<in>set new. Attempt.provider a = p \<and> Attempt.model a = m \<and> \<not> success a)"
  using assms(2)
proof (induction "maxRetries (retryConfig this) - retry" arbitrary: retry as w)
  case 0
  then have top: "retry = maxRetries (retryConfig this)" by simp
  from fails obtain e where "fst (awaitComplete this adapter request m p w) = Inl e" by blast
  then obtain w1 where aw: "awaitComplete this adapter request m p w = (Inl e, w1)"
    by (cases "awaitComplete this adapter request m p w") simp
  from retryLoop_break [OF "0.prems" aw] top
  show ?case by simp
next
  case (Suc k)
  then have lt: "retry < maxRetries (retryConfig this)" by simp
  from fails obtain e where e: "fst (awaitComplete this adapter request m p w) = Inl e"
    "isRetryable this e" by blast
  then obtain w1 where aw: "awaitComplete this adapter request m p w = (Inl e, w1)"
    by (cases "awaitComplete this adapter request m p w") simp
  let ?a = "\<lparr>Attempt.provider = p, Attempt.model = m, success = False,
               error = Some e, Attempt.latencyMs = now w1 - now w\<rparr>"
  let ?w2 = "sleep (backoffDelay this retry) w1"
  have k: "k = maxRetries (retryConfig this) - (retry + 1)" using Suc.hyps(2) by simp
  from lt have le: "retry + 1 \<le> maxRetries (retryConfig this)" by simp
  from Suc.hyps(1) [OF k le, of "as @ [?a]" ?w2]
  obtain new w' where new:
    "retryLoop this adapter request m p (retry + 1) (as @ [?a]) ?w2 = (Break, (as @ [?a]) @ new, w')"
    "length new = maxRetries (retryConfig this) + 1 - (retry + 1)"
    "\<forall>a\<in>set new. Attempt.provider a = p \<and> Attempt.model a = m \<and> \<not> success a"
    by blast
  have "retryLoop this adapter request m p retry as w = (Break, as @ (?a # new), w')"
    using retryLoop_again [OF lt aw e(2)] new(1) by simp
  moreover have "length (?a # new) = maxRetries (retryConfig this) + 1 - retry"
    using new(2) lt by simp
  moreover have "\<forall>a\<in>set (?a # new). Attempt.provider a = p \<and> Attempt.model a = m \<and> \<not> success a"
    using new(3) by simp
  ultimately show ?case by blast
qed

lemma isRetryable_rateLimit:
  "isRetryable (testRouter ps) (createMockRateLimitError anthropic)"
  by (simp add: isRetryable_def testRouter_def testRetryConfig_def DEFAULT_RETRY_CONFIG_def
      createMockRateLimitError_def newError_def errorCode_def)



subsection \<open>The whole chain\<close>










subsection \<open>The fixtures at work\<close>

lemma awaitComplete_rejectingAdapter:
  assumes "timeout request = None" and "1 \<le> defaultTimeout this"
  shows "awaitComplete this (rejectingAdapter q e) request m p w
           = (Inl e, w\<lparr>now := now w + 1, effects := effects w @ [Invoked p m]\<rparr>)"
  using assms by (simp add: awaitComplete_def rejectingAdapter_def)

lemma chain_claude_gpt:
  "buildModelChain (createMockRequest ''claude-3-sonnet'' (Some [''gpt-4'']))
     = [(''claude-3-sonnet'', anthropic), (''gpt-4'', openai)]"
  by code_simp

lemma chain_gpt: "buildModelChain (createMockRequest ''gpt-4'' None) = [(''gpt-4'', openai)]"
  by code_simp

lemma route_throws_iff:
  "isl (fst (route this request w))
     \<longleftrightarrow> fst (chainLoop this request (buildModelChain request) [] w) = None"
proof -
  obtain res as w' where "chainLoop this request (buildModelChain request) [] w = (res, as, w')"
    by (cases "chainLoop this request (buildModelChain request) [] w")
  then show ?thesis by (cases res) (simp_all add: route_def)
qed


subsection \<open>No retryable tokens\<close>

lemma retryLoop_single:
  assumes "retryableErrors (retryConfig this) = []"
      and "retryLoop this adapter request m p 0 as w = (exit, as', w')"
  shows "\<exists>a. as' = as @ [a] \<and> Attempt.model a = m \<and> Attempt.provider a = p"
proof -
  from retryLoop_shape [OF assms(2)]
  obtain new where new: "as' = as @ new" "new \<noteq> []"
      "\<forall>a\<in>set new. Attempt.provider a = p \<and> Attempt.model a = m"
      "\<forall>a\<in>set (butlast new). \<not> success a \<and> (\<exists>e. error a = Some e \<and> isRetryable this e)"
    by blast
  from assms(1) have "\<not> isRetryable this e" for e by (simp add: isRetryable_def)
  with new(4) have "butlast new = []" by (cases "butlast new") auto
  with new(2) have "new = [last new]" by (metis append_butlast_last_id append_Nil)
  with new(1,3) show ?thesis by (metis list.set_intros(1))
qed

lemma chainLoop_once:
  assumes "retryableErrors (retryConfig this) = []"
  shows "chainLoop this request models as w = (res, as', w') \<Longrightarrow>
     \<exists>n\<le>length models.
        map (\<lambda>a. (Attempt.model a, Attempt.provider a)) as'
          = map (\<lambda>a. (Attempt.model a, Attempt.provider a)) as @ take n models
        \<and> (res = None \<longrightarrow> n = length models)
        \<and> (\<forall>r. res = Some r \<longrightarrow> RouteResult.attempts r = as')"
proof (induction models arbitrary: as w)
  case Nil
  then show ?case by simp
next
  case (Cons entry models)
  let ?key = "\<lambda>a. (Attempt.model a, Attempt.provider a)"
  obtain m p where entry: "entry = (m, p)" by (cases entry)
  have step: "\<exists>n\<le>length (entry # models).
        map ?key as' = map ?key as @ take n (entry # models)
        \<and> (res = None \<longrightarrow> n = length (entry # models))
        \<and> (\<forall>r. res = Some r \<longrightarrow> RouteResult.attempts r = as')"
    if rest: "chainLoop this request models (as @ [a]) w1 = (res, as', w')"
      and a: "Attempt.model a = m" "Attempt.provider a = p" for a w1
  proof -
    from Cons.IH [OF rest] obtain n where n: "n \<le> length models"
      "map ?key as' = map ?key (as @ [a]) @ take n models"
      "res = None \<longrightarrow> n = length models"
      "\<forall>r. res = Some r \<longrightarrow> RouteResult.attempts r = as'"
      by blast
    have "map ?key as' = map ?key as @ take (Suc n) (entry # models)"
      using n(2) a entry by simp
    with n(1,3,4) show ?thesis
      by (intro exI [of _ "Suc n"]) simp
  qed
  show ?case
  proof (cases "providers this p")
    case None
    let ?a = "\<lparr>Attempt.provider = p, Attempt.model = m, success = False,
                 error = Some (newError (''Provider '' @ providerString p @ '' not configured'')),
                 Attempt.latencyMs = 0\<rparr>"
    from Cons.prems entry None
    have "chainLoop this request models (as @ [?a]) w = (res, as', w')" by simp
    from step [OF this] show ?thesis by simp
  next
    case (Some adapter)
    obtain exit as1 w1 where rl: "retryLoop this adapter request m p 0 as w = (exit, as1, w1)"
      by (cases "retryLoop this adapter request m p 0 as w")
    from retryLoop_single [OF assms rl] obtain a where
      a: "as1 = as @ [a]" "Attempt.model a = m" "Attempt.provider a = p" by blast
    show ?thesis
    proof (cases exit)
      case Break
      with Cons.prems entry Some rl a(1)
      have "chainLoop this request models (as @ [a]) w1 = (res, as', w')" by simp
      from step [OF this a(2,3)] show ?thesis .
    next
      case (Return r')
      with Cons.prems entry Some rl a
      have "res = Some \<lparr>response = r', RouteResult.attempts = as'\<rparr>" "as' = as @ [a]" by auto
      with a(2,3) entry show ?thesis
        by (intro exI [of _ "Suc 0"]) simp
    qed
  qed
qed

lemma failureAttempt_key [simp]:
  "Attempt.model (failureAttempt a) = Attempt.model a"
  "Attempt.provider (failureAttempt a) = Attempt.provider a"
  by (simp_all add: failureAttempt_def)

lemma retryLoop_single_effects:
  assumes "retryableErrors (retryConfig this) = []"
      and "retryLoop this adapter request m p 0 as w = (exit, as', w')"
  shows "effects w' = effects w @ [Invoked p m]"
proof -
  obtain outcome w1 where aw: "awaitComplete this adapter request m p w = (outcome, w1)"
    by (cases "awaitComplete this adapter request m p w")
  note eff = awaitComplete_effects [OF aw]
  from assms(1) have no: "\<not> isRetryable this e" for e by (simp add: isRetryable_def)
  show ?thesis
  proof (cases outcome)
    case (Inl e)
    with aw no assms(2) retryLoop_break [of 0 this adapter request m p w e w1 as]
    have "w' = w1" by simp
    with eff show ?thesis by simp
  next
    case (Inr r)
    with aw assms(2) retryLoop_return [of 0 this adapter request m p w r w1 as]
    have "w' = w1" by simp
    with eff show ?thesis by simp
  qed
qed

lemma chainLoop_once_effects:
  assumes "retryableErrors (retryConfig this) = []"
  shows "chainLoop this request models as w = (res, as', w') \<Longrightarrow>
     \<exists>n\<le>length models.
        length as' = length as + n
        \<and> effects w' = effects w
             @ map (\<lambda>(m, p). Invoked p m)
                 (filter (\<lambda>(m, p). providers this p \<noteq> None) (take n models))"
proof (induction models arbitrary: as w)
  case Nil
  then show ?case by simp
next
  case (Cons entry models)
  let ?inv = "\<lambda>ms. map (\<lambda>(m, p). Invoked p m) (filter (\<lambda>(m, p). providers this p \<noteq> None) ms)"
  obtain m p where entry: "entry = (m, p)" by (cases entry)
  show ?case
  proof (cases "providers this p")
    case None
    let ?a = "\<lparr>Attempt.provider = p, Attempt.model = m, success = False,
                 error = Some (newError (''Provider '' @ providerString p @ '' not configured'')),
                 Attempt.latencyMs = 0\<rparr>"
    from Cons.prems entry None
    have rest: "chainLoop this request models (as @ [?a]) w = (res, as', w')" by simp
    from Cons.IH [OF rest] obtain n where n: "n \<le> length models"
      "length as' = length (as @ [?a]) + n"
      "effects w' = effects w @ ?inv (take n models)"
      by blast
    have 1: "Suc n \<le> length (entry # models)" using n(1) by simp
    have 2: "length as' = length as + Suc n" using n(2) by simp
    have 3: "effects w' = effects w @ ?inv (take (Suc n) (entry # models))"
      using n(3) None entry by simp
    from 1 2 3 show ?thesis by (intro exI [of _ "Suc n"] conjI)
  next
    case (Some adapter)
    obtain exit as1 w1 where rl: "retryLoop this adapter request m p 0 as w = (exit, as1, w1)"
      by (cases "retryLoop this adapter request m p 0 as w")
    from retryLoop_single [OF assms rl] obtain a where a: "as1 = as @ [a]" by blast
    note eff = retryLoop_single_effects [OF assms rl]
    show ?thesis
    proof (cases exit)
      case Break
      with Cons.prems entry Some rl
      have rest: "chainLoop this request models as1 w1 = (res, as', w')" by simp
      from Cons.IH [OF rest] obtain n where n: "n \<le> length models"
        "length as' = length as1 + n"
        "effects w' = effects w1 @ ?inv (take n models)"
        by blast
      have 1: "Suc n \<le> length (entry # models)" using n(1) by simp
      have 2: "length as' = length as + Suc n" using n(2) a by simp
      have 3: "effects w' = effects w @ ?inv (take (Suc n) (entry # models))"
        using n(3) Some entry eff by simp
      from 1 2 3 show ?thesis by (intro exI [of _ "Suc n"] conjI)
    next
      case (Return r')
      with Cons.prems entry Some rl have eq: "as' = as1" "w' = w1" by auto
      have 1: "Suc 0 \<le> length (entry # models)" by simp
      have 2: "length as' = length as + Suc 0" using eq a by simp
      have 3: "effects w' = effects w @ ?inv (take (Suc 0) (entry # models))"
        using eq eff Some entry by simp
      from 1 2 3 show ?thesis by (intro exI [of _ "Suc 0"] conjI)
    qed
  qed
qed

text \<open>
  C7. An error is retryable exactly when some configured token is a substring of one of
  three strings read off the thrown value, and any one of the three will do: its
  \<^verbatim>\<open>code\<close> (empty when undefined, else turned into a string), its \<^verbatim>\<open>status\<close>, for
  which \<^verbatim>\<open>statusCode\<close> stands in when it is null or undefined (empty when the one taken
  is undefined, else turned into a string), and its \<^verbatim>\<open>message\<close> (empty when it is not a
  string). Numbers are taken below \<open>10 ^ 21\<close>, where \<^verbatim>\<open>String\<close> prints plain digits. So
  with no token configured no error is retryable, and then \<open>route\<close> makes one attempt per
  chain entry: the attempts of the thrown error are the chain, entry by entry, the attempts
  of a returned result are an initial part of the chain, and the effects of the run are one
  adapter call for each of these entries whose provider is configured, in chain order,
  with no sleep.
\<close>

theorem isRetryable_token_substring:
  assumes "representable (Error.code e)"
      and "representable (Error.status e)"
      and "representable (Error.statusCode e)"
  shows "(isRetryable this e \<longleftrightarrow>
      (\<exists>tok\<in>set (retryableErrors (retryConfig this)).
         sublist tok (case Error.code e of Undefined \<Rightarrow> [] | v \<Rightarrow> String v)
         \<or> sublist tok (case Error.status e of
                          Undefined \<Rightarrow> (case Error.statusCode e of Undefined \<Rightarrow> [] | v \<Rightarrow> String v)
                        | Null \<Rightarrow> (case Error.statusCode e of Undefined \<Rightarrow> [] | v \<Rightarrow> String v)
                        | v \<Rightarrow> String v)
         \<or> sublist tok (case Error.message e of JsString s \<Rightarrow> s | _ \<Rightarrow> [])))
   \<and> (retryableErrors (retryConfig this) = [] \<longrightarrow>
        \<not> isRetryable this e \<and>
        (case fst (route this request w) of
           Inl err \<Rightarrow>
             map (\<lambda>a. (Attempt.model a, Attempt.provider a)) (AllProvidersFailedError.attempts err)
               = buildModelChain request
             \<and> effects (snd (route this request w))
                 = effects w @ map (\<lambda>(m, p). Invoked p m)
                     (filter (\<lambda>(m, p). providers this p \<noteq> None) (buildModelChain request))
         | Inr result \<Rightarrow>
             map (\<lambda>a. (Attempt.model a, Attempt.provider a)) (RouteResult.attempts result)
               = take (length (RouteResult.attempts result)) (buildModelChain request)
             \<and> effects (snd (route this request w))
                 = effects w @ map (\<lambda>(m, p). Invoked p m)
                     (filter (\<lambda>(m, p). providers this p \<noteq> None)
                        (take (length (RouteResult.attempts result)) (buildModelChain request)))))"
proof (intro conjI impI)
  have c: "errorCode e = (case Error.code e of Undefined \<Rightarrow> [] | v \<Rightarrow> String v)"
    by (cases "Error.code e") (simp_all add: errorCode_def)
  have s: "errorStatus e = (case Error.status e of
                          Undefined \<Rightarrow> (case Error.statusCode e of Undefined \<Rightarrow> [] | v \<Rightarrow> String v)
                        | Null \<Rightarrow> (case Error.statusCode e of Undefined \<Rightarrow> [] | v \<Rightarrow> String v)
                        | v \<Rightarrow> String v)"
    by (cases "Error.status e"; cases "Error.statusCode e") (simp_all add: errorStatus_def)
  have m: "errorMessage e = (case Error.message e of JsString s \<Rightarrow> s | _ \<Rightarrow> [])"
    by (simp add: errorMessage_def)
  show "isRetryable this e \<longleftrightarrow>
      (\<exists>tok\<in>set (retryableErrors (retryConfig this)).
         sublist tok (case Error.code e of Undefined \<Rightarrow> [] | v \<Rightarrow> String v)
         \<or> sublist tok (case Error.status e of
                          Undefined \<Rightarrow> (case Error.statusCode e of Undefined \<Rightarrow> [] | v \<Rightarrow> String v)
                        | Null \<Rightarrow> (case Error.statusCode e of Undefined \<Rightarrow> [] | v \<Rightarrow> String v)
                        | v \<Rightarrow> String v)
         \<or> sublist tok (case Error.message e of JsString s \<Rightarrow> s | _ \<Rightarrow> []))"
    unfolding c [symmetric] s [symmetric] m [symmetric]
    by (simp add: isRetryable_def list_ex_iff includesStr_sublist)
next
  assume "retryableErrors (retryConfig this) = []"
  then show "\<not> isRetryable this e" by (simp add: isRetryable_def)
next
  assume empty: "retryableErrors (retryConfig this) = []"
  let ?key = "\<lambda>a. (Attempt.model a, Attempt.provider a)"
  let ?inv = "\<lambda>ms. map (\<lambda>(m, p). Invoked p m) (filter (\<lambda>(m, p). providers this p \<noteq> None) ms)"
  obtain res as w' where cl: "chainLoop this request (buildModelChain request) [] w = (res, as, w')"
    by (cases "chainLoop this request (buildModelChain request) [] w")
  from chainLoop_once [OF empty cl] obtain n where n: "n \<le> length (buildModelChain request)"
    "map ?key as = take n (buildModelChain request)"
    "res = None \<longrightarrow> n = length (buildModelChain request)"
    "\<forall>r. res = Some r \<longrightarrow> RouteResult.attempts r = as"
    by auto
  from n(1,2) have len: "length as = n" by (metis length_map length_take min.absorb2)
  from chainLoop_once_effects [OF empty cl] obtain k where
    "length as = length ([] :: Attempt list) + k"
    "effects w' = effects w @ ?inv (take k (buildModelChain request))"
    by blast
  with len have eff: "effects w' = effects w @ ?inv (take n (buildModelChain request))" by simp
  show "case fst (route this request w) of
           Inl err \<Rightarrow> map ?key (AllProvidersFailedError.attempts err) = buildModelChain request
             \<and> effects (snd (route this request w)) = effects w @ ?inv (buildModelChain request)
         | Inr result \<Rightarrow> map ?key (RouteResult.attempts result)
               = take (length (RouteResult.attempts result)) (buildModelChain request)
             \<and> effects (snd (route this request w))
                 = effects w @ ?inv (take (length (RouteResult.attempts result)) (buildModelChain request))"
  proof (cases res)
    case None
    with cl n(2,3) eff show ?thesis
      by (simp add: route_def newAllProvidersFailedError_def comp_def)
  next
    case (Some r)
    with cl n(2,4) len eff show ?thesis by (simp add: route_def)
  qed
qed

lemma isRetryable_strict: "\<not> isRetryable (strictRouter ps) e"
  by (simp add: isRetryable_def strictRouter_def)

theorem isRetryable_token_substring_witness:
  "isRetryable (testRouter Map.empty) createMockNetworkError
   \<and> isRetryable (testRouter Map.empty) serviceUnavailableError
   \<and> isRetryable (testRouter Map.empty) overloadedError
   \<and> \<not> isRetryable (testRouter Map.empty) badRequestError
   \<and> retryableErrors (retryConfig (strictRouter [anthropic \<mapsto> rejectingAdapter anthropic createMockNetworkError])) = []
   \<and> \<not> isRetryable (strictRouter [anthropic \<mapsto> rejectingAdapter anthropic createMockNetworkError])
          createMockNetworkError
   \<and> (\<exists>err. fst (route (strictRouter [anthropic \<mapsto> rejectingAdapter anthropic createMockNetworkError])
                    (createMockRequest ''claude-3-sonnet'' (Some [''gpt-4''])) world0) = Inl err
          \<and> map (\<lambda>a. (Attempt.model a, Attempt.provider a)) (AllProvidersFailedError.attempts err)
               = [(''claude-3-sonnet'', anthropic), (''gpt-4'', openai)])
   \<and> effects (snd (route (strictRouter [anthropic \<mapsto> rejectingAdapter anthropic createMockNetworkError])
                      (createMockRequest ''claude-3-sonnet'' (Some [''gpt-4''])) world0))
       = [Invoked anthropic ''claude-3-sonnet'']"
proof -
  let ?ad = "rejectingAdapter anthropic createMockNetworkError"
  let ?S = "strictRouter [anthropic \<mapsto> ?ad]"
  let ?T = "testRouter Map.empty"
  let ?req = "createMockRequest ''claude-3-sonnet'' (Some [''gpt-4''])"
  have toks: "retryableErrors (retryConfig ?T)
                = [''RATE_LIMIT'', ''TIMEOUT'', ''NETWORK_ERROR'', ''503'', ''529'']"
    by (simp add: testRouter_def testRetryConfig_def DEFAULT_RETRY_CONFIG_def)
  \<comment> \<open>a token in the code only\<close>
  have "isRetryable ?T createMockNetworkError"
    using isRetryable_token_substring [of createMockNetworkError ?T ?req world0, THEN conjunct1]
    by (simp add: toks createMockNetworkError_def newError_def)
  note first = this
  \<comment> \<open>a token in the status code only\<close>
  have n503: "showInt 503 = ''503''" by code_simp
  have "isRetryable ?T serviceUnavailableError"
    using isRetryable_token_substring [of serviceUnavailableError ?T ?req world0, THEN conjunct1]
    by (simp add: toks serviceUnavailableError_def newError_def n503)
  note second = this
  \<comment> \<open>a token in the message only\<close>
  have in529: "sublist ''529'' ''Model overloaded (529)''"
    using sublist_appendI [of "''529''" "''Model overloaded (''" "'')''"] by simp
  have "isRetryable ?T overloadedError"
    using isRetryable_token_substring [of overloadedError ?T ?req world0, THEN conjunct1] in529
    by (simp add: toks overloadedError_def newError_def)
  note third = this
  \<comment> \<open>no token in any of the three\<close>
  have n400: "showInt 400 = ''400''" by code_simp
  have no: "\<not> sublist tok ''BAD_REQUEST'' \<and> \<not> sublist tok ''400'' \<and> \<not> sublist tok ''Bad request''"
    if "tok \<in> set [''RATE_LIMIT'', ''TIMEOUT'', ''NETWORK_ERROR'', ''503'', ''529'']" for tok
    using that unfolding includesStr_sublist [symmetric] by auto
  have "\<not> isRetryable ?T badRequestError"
    using isRetryable_token_substring [of badRequestError ?T ?req world0, THEN conjunct1] no
    by (simp add: toks badRequestError_def newError_def n400)
  note fourth = this
  have empty: "retryableErrors (retryConfig ?S) = []" by (simp add: strictRouter_def)
  have aw: "awaitComplete ?S ?ad ?req ''claude-3-sonnet'' anthropic world0
              = (Inl createMockNetworkError,
                 world0\<lparr>now := now world0 + 1,
                        effects := effects world0 @ [Invoked anthropic ''claude-3-sonnet'']\<rparr>)"
    by (simp add: awaitComplete_rejectingAdapter createMockRequest_def strictRouter_def)
  have "fst (retryLoop ?S ?ad ?req ''claude-3-sonnet'' anthropic 0 [] world0) = Break"
    using retryLoop_break [OF _ aw, of 0 "[]"] isRetryable_strict by simp
  then obtain as1 w1 where
    rl: "retryLoop ?S ?ad ?req ''claude-3-sonnet'' anthropic 0 [] world0 = (Break, as1, w1)"
    by (cases "retryLoop ?S ?ad ?req ''claude-3-sonnet'' anthropic 0 [] world0") auto
  have p1: "providers ?S anthropic = Some ?ad" and p2: "providers ?S openai = None"
    by (simp_all add: strictRouter_def)
  have "fst (chainLoop ?S ?req (buildModelChain ?req) [] world0) = None"
    unfolding chain_claude_gpt by (simp add: p1 p2 rl)
  then have "isl (fst (route ?S ?req world0))" by (simp add: route_throws_iff)
  then obtain err where err: "fst (route ?S ?req world0) = Inl err"
    by (cases "fst (route ?S ?req world0)") simp_all
  have cne: "representable (Error.code createMockNetworkError)"
      "representable (Error.status createMockNetworkError)"
      "representable (Error.statusCode createMockNetworkError)"
    by (simp_all add: createMockNetworkError_def newError_def)
  note strict = isRetryable_token_substring [OF cne, of ?S ?req world0,
         THEN conjunct2, rule_format, OF empty]
  have fifth: "\<not> isRetryable ?S createMockNetworkError"
    using strict by (rule conjunct1)
  have "map (\<lambda>a. (Attempt.model a, Attempt.provider a)) (AllProvidersFailedError.attempts err)
           = buildModelChain ?req
        \<and> effects (snd (route ?S ?req world0))
            = effects world0 @ map (\<lambda>(m, p). Invoked p m)
                (filter (\<lambda>(m, p). providers ?S p \<noteq> None) (buildModelChain ?req))"
    using strict [THEN conjunct2] unfolding err sum.case .
  then have sixth: "map (\<lambda>a. (Attempt.model a, Attempt.provider a)) (AllProvidersFailedError.attempts err)
           = [(''claude-3-sonnet'', anthropic), (''gpt-4'', openai)]"
    and seventh: "effects (snd (route ?S ?req world0)) = [Invoked anthropic ''claude-3-sonnet'']"
    unfolding chain_claude_gpt by (simp_all add: p1 p2 world0_def)
  from err sixth have ex: "\<exists>err. fst (route ?S ?req world0) = Inl err
          \<and> map (\<lambda>a. (Attempt.model a, Attempt.provider a)) (AllProvidersFailedError.attempts err)
               = [(''claude-3-sonnet'', anthropic), (''gpt-4'', openai)]"
    by (intro exI [of _ err] conjI)
  from first second third fourth empty fifth ex seventh show ?thesis
    by (intro conjI)
qed

subsection \<open>Backoff\<close>

lemma isRetryable_badRequest: "\<not> isRetryable (testRouter ps) badRequestError"
  by code_simp

text \<open>
  C6. The retry loop of one entry, started at retry 0, is a sequence of at most
  \<open>maxRetries + 1\<close> adapter calls, each made in the world the previous one left after a
  sleep: the sleep after call \<open>k\<close> (before retry \<open>k\<close>, counting from 0) lasts
  \<open>min (initialDelayMs * backoffMultiplier ^ k) maxDelayMs\<close>. Every call but the last
  failed with a retryable error, so there is no sleep after a failure that is not
  retryable; the loop ends in the world the last call left, so there is no sleep after the
  last call either, and when it is left by \<^verbatim>\<open>break\<close> the last call failed with an error
  that is not retryable or it was call \<open>maxRetries + 1\<close>. The settings are taken in the
  range where the doubles of the code are exact and the timer keeps the delay. With 10, 2
  and 50 the delays are 10, 20, 40, 50, 50.
\<close>

theorem backoff_delays:
  assumes "maxDelayMs (retryConfig this) < 2 ^ 31"
      and "\<forall>k<maxRetries (retryConfig this).
             backoffMultiplier (retryConfig this) ^ k < 2 ^ 53
             \<and> initialDelayMs (retryConfig this) * backoffMultiplier (retryConfig this) ^ k < 2 ^ 53"
  shows "(retryLoop this adapter request m p 0 as w = (exit, as', w') \<longrightarrow>
      (\<exists>steps. steps \<noteq> [] \<and> length steps \<le> maxRetries (retryConfig this) + 1
         \<and> length as' = length as + length steps
         \<and> (\<forall>(u, out, u1)\<in>set steps. awaitComplete this adapter request m p u = (out, u1))
         \<and> map fst steps
              = w # map2 (\<lambda>k (u, out, u1).
                           sleep (min (initialDelayMs (retryConfig this)
                                         * backoffMultiplier (retryConfig this) ^ k)
                                      (maxDelayMs (retryConfig this))) u1)
                         [0..<length steps - 1] (butlast steps)
         \<and> w' = snd (snd (last steps))
         \<and> (\<forall>(u, out, u1)\<in>set (butlast steps). \<exists>e. out = Inl e \<and> isRetryable this e)
         \<and> (case fst (snd (last steps)) of
               Inr r \<Rightarrow> (\<exists>r'. exit = Return r')
             | Inl e \<Rightarrow> exit = Break
                  \<and> (\<not> isRetryable this e \<or> length steps = maxRetries (retryConfig this) + 1))
         \<and> effects w' = effects w
              @ concat (map (\<lambda>k. [Invoked p m,
                                   Slept (min (initialDelayMs (retryConfig this)
                                                 * backoffMultiplier (retryConfig this) ^ k)
                                              (maxDelayMs (retryConfig this)))])
                            [0..<length steps - 1])
              @ [Invoked p m]))
   \<and> (initialDelayMs (retryConfig this) = 10 \<and> backoffMultiplier (retryConfig this) = 2
        \<and> maxDelayMs (retryConfig this) = 50 \<longrightarrow>
        map (backoffDelay this) [0, 1, 2, 3, 4] = [10, 20, 40, 50, 50])"
proof (intro conjI impI)
  assume run: "retryLoop this adapter request m p 0 as w = (exit, as', w')"
  from retryLoop_shape [OF run]
  obtain new where new: "as' = as @ new"
      "effects w' = effects w
            @ concat (map (\<lambda>k. [Invoked p m, Slept (backoffDelay this k)])
                          [0..<0 + length new - 1])
            @ [Invoked p m]"
    by auto
  from retryLoop_steps [OF run le0]
  obtain steps where all: "steps \<noteq> []
      \<and> 0 + length steps \<le> maxRetries (retryConfig this) + 1
      \<and> as' = as @ map (\<lambda>(u, out, u1).
                  \<lparr>Attempt.provider = p, Attempt.model = m, success = \<not> isl out,
                   error = (case out of Inl e \<Rightarrow> Some e | Inr r \<Rightarrow> None),
                   Attempt.latencyMs = now u1 - now u\<rparr>) steps
      \<and> (\<forall>(u, out, u1)\<in>set steps. awaitComplete this adapter request m p u = (out, u1))
      \<and> map fst steps
            = w # map2 (\<lambda>k (u, out, u1). sleep (backoffDelay this k) u1)
                       [0..<0 + length steps - 1] (butlast steps)
      \<and> w' = snd (snd (last steps))
      \<and> (\<forall>(u, out, u1)\<in>set (butlast steps). \<exists>e. out = Inl e \<and> isRetryable this e)
      \<and> (case fst (snd (last steps)) of
            Inr r \<Rightarrow> exit \<noteq> Break
          | Inl e \<Rightarrow> exit = Break
               \<and> (\<not> isRetryable this e \<or> 0 + length steps = maxRetries (retryConfig this) + 1))" ..
  then have st: "steps \<noteq> []"
      "0 + length steps \<le> maxRetries (retryConfig this) + 1"
      "as' = as @ map (\<lambda>(u, out, u1).
                  \<lparr>Attempt.provider = p, Attempt.model = m, success = \<not> isl out,
                   error = (case out of Inl e \<Rightarrow> Some e | Inr r \<Rightarrow> None),
                   Attempt.latencyMs = now u1 - now u\<rparr>) steps"
      "\<forall>(u, out, u1)\<in>set steps. awaitComplete this adapter request m p u = (out, u1)"
      "map fst steps
            = w # map2 (\<lambda>k (u, out, u1). sleep (backoffDelay this k) u1)
                       [0..<0 + length steps - 1] (butlast steps)"
      "w' = snd (snd (last steps))"
      "\<forall>(u, out, u1)\<in>set (butlast steps). \<exists>e. out = Inl e \<and> isRetryable this e"
      "case fst (snd (last steps)) of
            Inr r \<Rightarrow> exit \<noteq> Break
          | Inl e \<Rightarrow> exit = Break
               \<and> (\<not> isRetryable this e \<or> 0 + length steps = maxRetries (retryConfig this) + 1)"
    by (rule conjunct1, rule conjunct2 [THEN conjunct1],
        rule conjunct2 [THEN conjunct2, THEN conjunct1],
        rule conjunct2 [THEN conjunct2, THEN conjunct2, THEN conjunct1],
        rule conjunct2 [THEN conjunct2, THEN conjunct2, THEN conjunct2, THEN conjunct1],
        rule conjunct2 [THEN conjunct2, THEN conjunct2, THEN conjunct2, THEN conjunct2, THEN conjunct1],
        rule conjunct2 [THEN conjunct2, THEN conjunct2, THEN conjunct2, THEN conjunct2, THEN conjunct2, THEN conjunct1],
        rule conjunct2 [THEN conjunct2, THEN conjunct2, THEN conjunct2, THEN conjunct2, THEN conjunct2, THEN conjunct2])
  from new(1) st(3) have "length (as @ new) = length (as @ map (\<lambda>(u, out, u1).
                  \<lparr>Attempt.provider = p, Attempt.model = m, success = \<not> isl out,
                   error = (case out of Inl e \<Rightarrow> Some e | Inr r \<Rightarrow> None),
                   Attempt.latencyMs = now u1 - now u\<rparr>) steps)"
    by (rule_tac arg_cong [of _ _ length]) simp
  then have same: "length new = length steps" by simp
  have 1: "length steps \<le> maxRetries (retryConfig this) + 1" using st(2) by simp
  have 2: "length as' = length as + length steps" using st(3) by simp
  have 3: "map fst steps
              = w # map2 (\<lambda>k (u, out, u1).
                           sleep (min (initialDelayMs (retryConfig this)
                                         * backoffMultiplier (retryConfig this) ^ k)
                                      (maxDelayMs (retryConfig this))) u1)
                         [0..<length steps - 1] (butlast steps)"
    using st(5) by (simp add: backoffDelay_def)
  have 4: "case fst (snd (last steps)) of
               Inr r \<Rightarrow> (\<exists>r'. exit = Return r')
             | Inl e \<Rightarrow> exit = Break
                  \<and> (\<not> isRetryable this e \<or> length steps = maxRetries (retryConfig this) + 1)"
  proof (cases "fst (snd (last steps))")
    case (Inl e)
    with st(8) show ?thesis by simp
  next
    case (Inr r)
    with st(8) show ?thesis by (cases exit) simp_all
  qed
  have 5: "effects w' = effects w
              @ concat (map (\<lambda>k. [Invoked p m,
                                   Slept (min (initialDelayMs (retryConfig this)
                                                 * backoffMultiplier (retryConfig this) ^ k)
                                              (maxDelayMs (retryConfig this)))])
                            [0..<length steps - 1])
              @ [Invoked p m]"
    using new(2) same by (simp add: backoffDelay_def)
  show "\<exists>steps. steps \<noteq> [] \<and> length steps \<le> maxRetries (retryConfig this) + 1
         \<and> length as' = length as + length steps
         \<and> (\<forall>(u, out, u1)\<in>set steps. awaitComplete this adapter request m p u = (out, u1))
         \<and> map fst steps
              = w # map2 (\<lambda>k (u, out, u1).
                           sleep (min (initialDelayMs (retryConfig this)
                                         * backoffMultiplier (retryConfig this) ^ k)
                                      (maxDelayMs (retryConfig this))) u1)
                         [0..<length steps - 1] (butlast steps)
         \<and> w' = snd (snd (last steps))
         \<and> (\<forall>(u, out, u1)\<in>set (butlast steps). \<exists>e. out = Inl e \<and> isRetryable this e)
         \<and> (case fst (snd (last steps)) of
               Inr r \<Rightarrow> (\<exists>r'. exit = Return r')
             | Inl e \<Rightarrow> exit = Break
                  \<and> (\<not> isRetryable this e \<or> length steps = maxRetries (retryConfig this) + 1))
         \<and> effects w' = effects w
              @ concat (map (\<lambda>k. [Invoked p m,
                                   Slept (min (initialDelayMs (retryConfig this)
                                                 * backoffMultiplier (retryConfig this) ^ k)
                                              (maxDelayMs (retryConfig this)))])
                            [0..<length steps - 1])
              @ [Invoked p m]"
    by (rule exI [of _ steps]) (intro conjI st(1) 1 2 st(4) 3 st(6) st(7) 4 5)
next
  assume "initialDelayMs (retryConfig this) = 10 \<and> backoffMultiplier (retryConfig this) = 2
        \<and> maxDelayMs (retryConfig this) = 50"
  then show "map (backoffDelay this) [0, 1, 2, 3, 4] = [10, 20, 40, 50, 50]"
    by (simp add: backoffDelay_def)
qed

theorem backoff_delays_witness:
  "(\<exists>as' w'. retryLoop (testRouter [anthropic \<mapsto> rejectingAdapter anthropic (createMockRateLimitError anthropic)])
                 (rejectingAdapter anthropic (createMockRateLimitError anthropic))
                 (createMockRequest ''claude-3-sonnet'' None) ''claude-3-sonnet'' anthropic 0 [] world0
               = (Break, as', w')
      \<and> effects w' = [Invoked anthropic ''claude-3-sonnet'', Slept 10,
                       Invoked anthropic ''claude-3-sonnet'', Slept 20,
                       Invoked anthropic ''claude-3-sonnet''])
   \<and> (\<exists>as' w'. retryLoop (testRouter [anthropic \<mapsto> rejectingAdapter anthropic badRequestError])
                 (rejectingAdapter anthropic badRequestError)
                 (createMockRequest ''claude-3-sonnet'' None) ''claude-3-sonnet'' anthropic 0 [] world0
               = (Break, as', w')
      \<and> effects w' = [Invoked anthropic ''claude-3-sonnet''])
   \<and> map (backoffDelay (testRouter [anthropic \<mapsto> rejectingAdapter anthropic (createMockRateLimitError anthropic)]))
             [0, 1, 2, 3, 4] = [10, 20, 40, 50, 50]"
proof -
  let ?req = "createMockRequest ''claude-3-sonnet'' None"
  let ?m = "''claude-3-sonnet''"
  have cfg: "maxRetries (retryConfig (testRouter ps)) = 2"
    "initialDelayMs (retryConfig (testRouter ps)) = 10"
    "backoffMultiplier (retryConfig (testRouter ps)) = 2"
    "maxDelayMs (retryConfig (testRouter ps)) = 50" for ps
    by (simp_all add: testRouter_def testRetryConfig_def DEFAULT_RETRY_CONFIG_def)
  have r1: "maxDelayMs (retryConfig (testRouter ps)) < 2 ^ 31" for ps
    by (simp add: cfg)
  have r2: "\<forall>k<maxRetries (retryConfig (testRouter ps)).
             backoffMultiplier (retryConfig (testRouter ps)) ^ k < 2 ^ 53
             \<and> initialDelayMs (retryConfig (testRouter ps))
                  * backoffMultiplier (retryConfig (testRouter ps)) ^ k < 2 ^ 53" for ps
    by (auto simp add: cfg less_2_cases_iff)
  \<comment> \<open>a provider that always fails with a retryable error\<close>
  let ?ad = "rejectingAdapter anthropic (createMockRateLimitError anthropic)"
  let ?R = "testRouter [anthropic \<mapsto> ?ad]"
  have fails: "\<forall>w. \<exists>e. fst (awaitComplete ?R ?ad ?req ?m anthropic w) = Inl e \<and> isRetryable ?R e"
    using isRetryable_rateLimit
    by (simp add: awaitComplete_rejectingAdapter createMockRequest_def testRouter_def)
  from retryLoop_always_retryable [OF fails, of 0 "[]" world0] cfg(1)
  obtain as' w' where run: "retryLoop ?R ?ad ?req ?m anthropic 0 [] world0 = (Break, as', w')"
    and len: "length as' = 3"
    by auto
  let ?P = "\<lambda>R ad (bs :: Attempt list) ex bs' v' steps. steps \<noteq> []
         \<and> length steps \<le> maxRetries (retryConfig R) + 1
         \<and> length bs' = length bs + length steps
         \<and> (\<forall>(u, out, u1)\<in>set steps. awaitComplete R ad ?req ?m anthropic u = (out, u1))
         \<and> map fst steps
              = world0 # map2 (\<lambda>k (u, out, u1).
                           sleep (min (initialDelayMs (retryConfig R)
                                         * backoffMultiplier (retryConfig R) ^ k)
                                      (maxDelayMs (retryConfig R))) u1)
                         [0..<length steps - 1] (butlast steps)
         \<and> v' = snd (snd (last steps))
         \<and> (\<forall>(u, out, u1)\<in>set (butlast steps). \<exists>e. out = Inl e \<and> isRetryable R e)
         \<and> (case fst (snd (last steps)) of
               Inr r \<Rightarrow> (\<exists>r'. ex = Return r')
             | Inl e \<Rightarrow> ex = Break
                  \<and> (\<not> isRetryable R e \<or> length steps = maxRetries (retryConfig R) + 1))
         \<and> effects v' = effects world0
              @ concat (map (\<lambda>k. [Invoked anthropic ?m,
                                   Slept (min (initialDelayMs (retryConfig R)
                                                 * backoffMultiplier (retryConfig R) ^ k)
                                              (maxDelayMs (retryConfig R)))])
                            [0..<length steps - 1])
              @ [Invoked anthropic ?m]"
  have "\<exists>steps. ?P ?R ?ad [] Break as' w' steps"
    using backoff_delays [OF r1 r2, of _ ?ad ?req ?m anthropic "[]" world0 Break as' w',
         THEN conjunct1, rule_format, OF run] .
  then obtain steps where all: "?P ?R ?ad [] Break as' w' steps" ..
  note l3 = all [THEN conjunct2, THEN conjunct2, THEN conjunct1]
  note l9 = all [THEN conjunct2, THEN conjunct2, THEN conjunct2, THEN conjunct2, THEN conjunct2,
                 THEN conjunct2, THEN conjunct2, THEN conjunct2]
  from l3 len have three: "length steps = 3" by simp
  have "effects w' = effects world0
              @ concat (map (\<lambda>k. [Invoked anthropic ?m,
                                   Slept (min (initialDelayMs (retryConfig ?R)
                                                 * backoffMultiplier (retryConfig ?R) ^ k)
                                              (maxDelayMs (retryConfig ?R)))])
                            [0..<3 - 1])
              @ [Invoked anthropic ?m]"
    using l9 unfolding three .
  then have "effects w' = effects world0
              @ concat (map (\<lambda>k. [Invoked anthropic ?m,
                                   Slept (min (initialDelayMs (retryConfig ?R)
                                                 * backoffMultiplier (retryConfig ?R) ^ k)
                                              (maxDelayMs (retryConfig ?R)))])
                            [0..<3 - 1])
              @ [Invoked anthropic ?m]"
    by simp
  moreover have "[0..<3 - 1] = [0, Suc 0]" by (simp add: upt_rec)
  ultimately have eff: "effects w' = [Invoked anthropic ?m, Slept 10, Invoked anthropic ?m, Slept 20,
                       Invoked anthropic ?m]"
    by (simp add: cfg world0_def)
  from run eff have A: "\<exists>as' w'. retryLoop ?R ?ad ?req ?m anthropic 0 [] world0 = (Break, as', w')
      \<and> effects w' = [Invoked anthropic ?m, Slept 10, Invoked anthropic ?m, Slept 20,
                       Invoked anthropic ?m]"
    by blast
  \<comment> \<open>a provider that fails with an error that is not retryable\<close>
  let ?bad = "rejectingAdapter anthropic badRequestError"
  let ?B = "testRouter [anthropic \<mapsto> ?bad]"
  obtain exit bs v' where brun: "retryLoop ?B ?bad ?req ?m anthropic 0 [] world0 = (exit, bs, v')"
    by (cases "retryLoop ?B ?bad ?req ?m anthropic 0 [] world0")
  have first: "awaitComplete ?B ?bad ?req ?m anthropic world0
                 = (Inl badRequestError,
                    world0\<lparr>now := now world0 + 1,
                           effects := effects world0 @ [Invoked anthropic ?m]\<rparr>)"
    by (simp add: awaitComplete_rejectingAdapter createMockRequest_def testRouter_def)
  have "\<exists>steps. ?P ?B ?bad [] exit bs v' steps"
    using backoff_delays [OF r1 r2, of _ ?bad ?req ?m anthropic "[]" world0 exit bs v',
         THEN conjunct1, rule_format, OF brun] .
  then obtain bsteps where ball: "?P ?B ?bad [] exit bs v' bsteps" ..
  note st1 = ball [THEN conjunct1]
  note st4 = ball [THEN conjunct2, THEN conjunct2, THEN conjunct2, THEN conjunct1]
  note st5 = ball [THEN conjunct2, THEN conjunct2, THEN conjunct2, THEN conjunct2, THEN conjunct1]
  note st7 = ball [THEN conjunct2, THEN conjunct2, THEN conjunct2, THEN conjunct2, THEN conjunct2,
                   THEN conjunct2, THEN conjunct1]
  note st8 = ball [THEN conjunct2, THEN conjunct2, THEN conjunct2, THEN conjunct2, THEN conjunct2,
                   THEN conjunct2, THEN conjunct2, THEN conjunct1]
  note st9 = ball [THEN conjunct2, THEN conjunct2, THEN conjunct2, THEN conjunct2, THEN conjunct2,
                   THEN conjunct2, THEN conjunct2, THEN conjunct2]
  from st1 obtain x rest where steps: "bsteps = x # rest" by (cases bsteps) auto
  obtain u out u1 where x: "x = (u, out, u1)" by (cases x)
  from st5 steps x have "u = world0" by simp
  with st4 steps x first have out: "out = Inl badRequestError" by simp
  have "rest = []"
  proof (rule ccontr)
    assume "rest \<noteq> []"
    with steps have "x \<in> set (butlast bsteps)" by simp
    with st7 x out have "isRetryable ?B badRequestError" by auto
    with isRetryable_badRequest show False by simp
  qed
  with steps x out st8 st9 have "exit = Break" "effects v' = [Invoked anthropic ?m]"
    by (simp_all add: world0_def)
  with brun have B: "\<exists>as' w'. retryLoop ?B ?bad ?req ?m anthropic 0 [] world0 = (Break, as', w')
      \<and> effects w' = [Invoked anthropic ?m]"
    by blast
  have C: "map (backoffDelay ?R) [0, 1, 2, 3, 4] = [10, 20, 40, 50, 50]"
    using backoff_delays [OF r1 r2, of _ ?ad ?req ?m anthropic "[]" world0 Break as' w',
            THEN conjunct2]
      cfg by simp
  from A B C show ?thesis by (intro conjI)
qed

subsection \<open>An empty chain\<close>

text \<open>
  C10. When the resolver knows neither the primary model nor any fallback model, the chain
  is empty and \<open>route\<close> throws an \<open>AllProvidersFailedError\<close> without attempts; the world is
  left as it was, so no adapter was called and nothing slept.
\<close>

theorem route_empty_chain:
  assumes "getProviderForModel (CompletionRequest.model request) = None"
      and "\<forall>fb. fallback request = Some fb \<longrightarrow> (\<forall>m\<in>set fb. getProviderForModel m = None)"
  shows "buildModelChain request = []
       \<and> (\<exists>err. route this request w = (Inl err, w)
              \<and> Error.name err = ''AllProvidersFailedError''
              \<and> AllProvidersFailedError.attempts err = [])"
proof -
  have "concat (map (\<lambda>m. case getProviderForModel m of Some p \<Rightarrow> [(m, p)] | None \<Rightarrow> []) fb) = []"
    if "\<forall>m\<in>set fb. getProviderForModel m = None" for fb
    using that by (induction fb) simp_all
  with assms have chain: "buildModelChain request = []"
    by (cases "fallback request") (simp_all add: buildModelChain_def)
  then have "route this request w = (Inl (newAllProvidersFailedError []), w)"
    by (simp add: route_def)
  then show ?thesis
    using chain by (simp add: newAllProvidersFailedError_def)
qed

theorem route_empty_chain_witness:
  "buildModelChain (createMockRequest ''test-model'' (Some [''llama-3'', ''command-r''])) = []
   \<and> (\<exists>err. route (testRouter [anthropic \<mapsto> createMockProviderAdapter anthropic])
                (createMockRequest ''test-model'' (Some [''llama-3'', ''command-r''])) world0
              = (Inl err, world0)
          \<and> AllProvidersFailedError.attempts err = [])"
proof -
  let ?req = "createMockRequest ''test-model'' (Some [''llama-3'', ''command-r''])"
  have 1: "getProviderForModel (CompletionRequest.model ?req) = None" by code_simp
  have "getProviderForModel ''llama-3'' = None" "getProviderForModel ''command-r'' = None"
    by code_simp+
  then have 2: "\<forall>fb. fallback ?req = Some fb \<longrightarrow> (\<forall>m\<in>set fb. getProviderForModel m = None)"
    by (simp add: createMockRequest_def)
  from route_empty_chain [OF 1 2, of "testRouter [anthropic \<mapsto> createMockProviderAdapter anthropic]" world0]
  show ?thesis by blast
qed

subsection \<open>Streaming\<close>

lemma chainLoop_unconfigured:
  "providers this p = None \<Longrightarrow>
     chainLoop this request ((m, p) # models) as w
       = chainLoop this request models
           (as @ [\<lparr>Attempt.provider = p, Attempt.model = m, success = False,
                   error = Some (newError (''Provider '' @ providerString p @ '' not configured'')),
                   Attempt.latencyMs = 0\<rparr>]) w"
  by simp

lemma streamLoop_unconfigured:
  "providers this p = None \<Longrightarrow>
     streamLoop this request ((m, p) # models) as yielded w
       = streamLoop this request models as yielded w"
  by simp

lemma streamLoop_failure:
  assumes "providers this p = Some adapter"
      and "stream adapter (request\<lparr>CompletionRequest.model := m\<rparr>) w = run"
      and "failure run = Some e"
  shows "streamLoop this request ((m, p) # models) as yielded w
           = streamLoop this request models
               (as @ [\<lparr>Attempt.provider = p, Attempt.model = m, success = False,
                       error = Some e, Attempt.latencyMs = elapsed run\<rparr>])
               (yielded @ map (augmentChunk (length as)) (chunks run))
               (w\<lparr>now := now w + elapsed run, effects := effects w @ [Streamed p m]\<rparr>)"
  using assms by (simp add: Let_def)

lemma streamLoop_completes:
  assumes "providers this p = Some adapter"
      and "stream adapter (request\<lparr>CompletionRequest.model := m\<rparr>) w = run"
      and "failure run = None"
  shows "streamLoop this request ((m, p) # models) as yielded w
           = ((yielded @ map (augmentChunk (length as)) (chunks run), None),
              w\<lparr>now := now w + elapsed run, effects := effects w @ [Streamed p m]\<rparr>)"
  using assms by (simp add: Let_def)

text \<open>
  C1 says that once the stream of an entry has yielded a chunk, a failure of that stream is
  thrown to the caller and no further entry is tried, as the comment on \<open>routeStream\<close>
  announces (\<^verbatim>\<open>failover only on initial connection\<close>). The generator does not do this:
  its \<^verbatim>\<open>catch\<close> takes every failure of the stream (\<open>streamLoop_failure\<close> holds
  whatever the chunks were). Here the anthropic stream yields \<^verbatim>\<open>'Partial '\<close> and then
  fails with a network error; the caller has received that chunk, nothing is thrown, the
  openai stream is started and its chunks follow.
\<close>

theorem routeStream_fails_over_after_content:
  "routeStream (testRouter [anthropic \<mapsto> breakingAdapter anthropic createMockNetworkError,
                            openai \<mapsto> createMockProviderAdapter openai])
               (createMockRequest ''claude-3-sonnet'' (Some [''gpt-4''])) world0
     = (([contentChunk ''Partial '', contentChunk ''Mock '', contentChunk ''stream '',
          contentChunk ''response'', augmentChunk 1 (finalChunk openai)], None),
        \<lparr>now = 151,
         effects = [Streamed anthropic ''claude-3-sonnet'', Streamed openai ''gpt-4'']\<rparr>)"
proof -
  let ?R = "testRouter [anthropic \<mapsto> breakingAdapter anthropic createMockNetworkError,
                        openai \<mapsto> createMockProviderAdapter openai]"
  let ?req = "createMockRequest ''claude-3-sonnet'' (Some [''gpt-4''])"
  have p1: "providers ?R anthropic = Some (breakingAdapter anthropic createMockNetworkError)"
    and p2: "providers ?R openai = Some (createMockProviderAdapter openai)"
    by (simp_all add: testRouter_def)
  have s1: "stream (breakingAdapter anthropic createMockNetworkError) rq w
              = \<lparr>chunks = [contentChunk ''Partial ''], failure = Some createMockNetworkError,
                 elapsed = 1\<rparr>" for rq w
    by (simp add: breakingAdapter_def)
  have s2: "stream (createMockProviderAdapter openai) rq w
              = \<lparr>chunks = [contentChunk ''Mock '', contentChunk ''stream '',
                           contentChunk ''response'', finalChunk openai],
                 failure = None, elapsed = 150\<rparr>" for rq w
    by (simp add: createMockProviderAdapter_def)
  have c: "augmentChunk n (contentChunk t) = contentChunk t" for n t
    by (simp add: augmentChunk_def contentChunk_def)
  show ?thesis
    unfolding routeStream_def chain_claude_gpt
    by (simp add: streamLoop_failure [OF p1 s1] streamLoop_completes [OF p2 s2] c world0_def
             del: streamLoop.simps)
qed

text \<open>
  C3 says that \<open>route\<close> and \<open>routeStream\<close> both record one failed attempt for an entry whose
  provider has no adapter. \<open>route\<close> does (\<open>chainLoop_unconfigured\<close>); \<open>routeStream\<close>
  skips the entry without recording anything (\<open>streamLoop_unconfigured\<close>). With only
  anthropic configured and the model \<^verbatim>\<open>gpt-4\<close>, the chain is the single openai entry: the
  error \<open>routeStream\<close> throws has no attempts, the error \<open>route\<close> throws has the one
  "not configured" attempt.
\<close>

theorem routeStream_unconfigured_not_recorded:
  "buildModelChain (createMockRequest ''gpt-4'' None) = [(''gpt-4'', openai)]
   \<and> providers (testRouter [anthropic \<mapsto> createMockProviderAdapter anthropic]) openai = None
   \<and> routeStream (testRouter [anthropic \<mapsto> createMockProviderAdapter anthropic])
        (createMockRequest ''gpt-4'' None) world0
      = (([], Some (newAllProvidersFailedError [])), world0)
   \<and> AllProvidersFailedError.attempts (newAllProvidersFailedError []) = []
   \<and> fst (route (testRouter [anthropic \<mapsto> createMockProviderAdapter anthropic])
        (createMockRequest ''gpt-4'' None) world0)
      = Inl (newAllProvidersFailedError
          [\<lparr>Attempt.provider = openai, Attempt.model = ''gpt-4'', success = False,
            error = Some (newError ''Provider openai not configured''),
            Attempt.latencyMs = 0\<rparr>])"
proof -
  let ?R = "testRouter [anthropic \<mapsto> createMockProviderAdapter anthropic]"
  have p: "providers ?R openai = None" by (simp add: testRouter_def)
  have "routeStream ?R (createMockRequest ''gpt-4'' None) world0
          = (([], Some (newAllProvidersFailedError [])), world0)"
    unfolding routeStream_def chain_gpt by (simp add: p)
  moreover have "fst (route ?R (createMockRequest ''gpt-4'' None) world0)
      = Inl (newAllProvidersFailedError
          [\<lparr>Attempt.provider = openai, Attempt.model = ''gpt-4'', success = False,
            error = Some (newError ''Provider openai not configured''),
            Attempt.latencyMs = 0\<rparr>])"
    unfolding route_def chain_gpt by (simp add: p failureAttempt_def)
  ultimately show ?thesis
    using p chain_gpt by (simp add: newAllProvidersFailedError_def)
qed

section \<open>Properties of the tracer\<close>

subsection \<open>What each method leaves alone\<close>

lemma updateData_frame:
  "clock (updateData s f st) = clock st" "spans (updateData s f st) = spans st"
  "config (updateData s f st) = config st" "random (updateData s f st) = random st"
  "drawn (updateData s f st) = drawn st" "exportQueue (updateData s f st) = exportQueue st"
  "spanStack (updateData s f st) = spanStack st"
  by (simp_all add: updateData_def split: option.splits)

lemma updateData_heap:
  "heap st (data s) = Some d \<Longrightarrow> heap (updateData s f st) (data s) = Some (f d)"
  by (simp add: updateData_def)

lemma shouldSample_frame:
  "shouldSample st = (b, st') \<Longrightarrow>
     heap st' = heap st \<and> clock st' = clock st \<and> spans st' = spans st
     \<and> exportQueue st' = exportQueue st \<and> config st' = config st \<and> spanStack st' = spanStack st"
  by (auto simp: shouldSample_def mathRandom_def split: if_splits option.splits prod.splits)

lemma flush_frame:
  "heap (flush st) = heap st" "clock (flush st) = clock st" "spans (flush st) = spans st"
  "spanStack (flush st) = spanStack st"
  by (simp_all add: flush_def)

lemma recordSpan_frame:
  "heap (recordSpan a st) = heap st" "clock (recordSpan a st) = clock st"
  by (auto simp: recordSpan_def Let_def flush_frame split: prod.splits dest: shouldSample_frame)

lemma recordSpan_spans:
  "spans (recordSpan a st) = (if fst (shouldSample st) then spans st @ [a] else spans st)"
  by (auto simp: recordSpan_def Let_def flush_frame split: prod.splits dest: shouldSample_frame)

lemma endSpan_frame:
  "heap (endSpan s st) = heap st" "clock (endSpan s st) = clock st" "spans (endSpan s st) = spans st"
  by (simp_all add: endSpan_def)

lemma shouldSample_updateData:
  "fst (shouldSample (updateData s f st)) = fst (shouldSample st)"
  by (simp add: shouldSample_def mathRandom_def updateData_frame split: option.splits prod.splits)

lemma end_span_heap:
  "heap st (data s) = Some d \<Longrightarrow>
     heap (end_span s st) (data s)
       = Some (d\<lparr>endTime := Some (clock st),
                 status := (if status d = StatusUnset then StatusOk else status d)\<rparr>)"
  by (simp add: end_span_def endSpan_frame recordSpan_frame updateData_heap Let_def)

lemma end_span_clock: "clock (end_span s st) = clock st"
  by (simp add: end_span_def endSpan_frame recordSpan_frame updateData_frame)

lemma end_span_spans:
  "spans (end_span s st) = (if fst (shouldSample st) then spans st @ [data s] else spans st)"
  by (simp add: end_span_def endSpan_frame recordSpan_spans shouldSample_updateData updateData_frame)


lemma wait_frame:
  "heap (wait n st) = heap st" "spans (wait n st) = spans st" "clock (wait n st) = clock st + n"
  by (simp_all add: wait_def)

lemma call_data:
  assumes "heap st (data s) = Some d"
  shows "\<exists>d'. heap (call s c st) (data s) = Some d'
           \<and> startTime d' = startTime d \<and> spanContext d' = spanContext d
           \<and> endTime d' = (if c = End then Some (clock st) else endTime d)"
proof (cases c)
  case (RecordException e)
  let ?st1 = "setStatus s StatusError (Error.message e) st"
  from assms obtain d1 where "heap ?st1 (data s) = Some d1" "startTime d1 = startTime d"
    "spanContext d1 = spanContext d" "endTime d1 = endTime d"
    by (simp add: setStatus_def updateData_heap Let_def)
  with RecordException show ?thesis
    by (simp add: recordException_def addEvent_def updateData_heap)
qed (use assms in \<open>simp_all add: setAttribute_def setAttributes_def addEvent_def setStatus_def
      updateData_heap end_span_heap wait_frame Let_def\<close>)

lemma call_clock:
  "clock (call s c st) = (case c of Wait n \<Rightarrow> clock st + n | _ \<Rightarrow> clock st)"
  by (cases c)
     (simp_all add: setAttribute_def setAttributes_def addEvent_def setStatus_def
        recordException_def updateData_frame end_span_clock wait_frame)

lemma call_spans:
  "c \<noteq> End \<Longrightarrow> spans (call s c st) = spans st"
  by (cases c)
     (simp_all add: setAttribute_def setAttributes_def addEvent_def setStatus_def
        recordException_def updateData_frame wait_frame)

lemma calls_snoc: "calls s (cs @ [c]) st = call s c (calls s cs st)"
  by (simp add: calls_def)

lemma calls_clock: "clock st \<le> clock (calls s cs st)"
proof (induction cs rule: rev_induct)
  case Nil
  show ?case by (simp add: calls_def)
next
  case (snoc c cs)
  have "clock (calls s cs st) \<le> clock (call s c (calls s cs st))"
    by (simp add: call_clock split: SpanCall.splits)
  with snoc show ?case by (simp add: calls_snoc)
qed

lemma calls_spans: "End \<notin> set cs \<Longrightarrow> spans (calls s cs st) = spans st"
proof (induction cs rule: rev_induct)
  case Nil
  show ?case by (simp add: calls_def)
next
  case (snoc c cs)
  then have "c \<noteq> End" and "spans (calls s cs st) = spans st" by auto
  then show ?case by (simp add: calls_snoc call_spans)
qed

lemma calls_data:
  assumes "heap st (data s) = Some d"
  shows "\<exists>d'. heap (calls s cs st) (data s) = Some d'
           \<and> startTime d' = startTime d \<and> spanContext d' = spanContext d
           \<and> (End \<notin> set cs \<longrightarrow> endTime d' = endTime d)
           \<and> (\<forall>pre post. cs = pre @ End # post \<and> End \<notin> set post
                 \<longrightarrow> endTime d' = Some (clock (calls s pre st)))"
proof (induction cs rule: rev_induct)
  case Nil
  with assms show ?case by (simp add: calls_def)
next
  case (snoc c cs)
  then obtain d1 where d1: "heap (calls s cs st) (data s) = Some d1"
    "startTime d1 = startTime d" "spanContext d1 = spanContext d"
    "End \<notin> set cs \<longrightarrow> endTime d1 = endTime d"
    "\<forall>pre post. cs = pre @ End # post \<and> End \<notin> set post
                 \<longrightarrow> endTime d1 = Some (clock (calls s pre st))"
    by blast
  from call_data [OF d1(1), of c] obtain d' where d': "heap (calls s (cs @ [c]) st) (data s) = Some d'"
    "startTime d' = startTime d1" "spanContext d' = spanContext d1"
    "endTime d' = (if c = End then Some (clock (calls s cs st)) else endTime d1)"
    by (auto simp: calls_snoc)
  have last_end: "endTime d' = Some (clock (calls s pre st))"
    if split: "cs @ [c] = pre @ End # post" and post: "End \<notin> set post" for pre post
  proof (cases post rule: rev_cases)
    case Nil
    with split have "c = End" "pre = cs" by simp_all
    with d'(4) show ?thesis by simp
  next
    case (snoc post' c')
    with split have "c = c'" "cs = pre @ End # post'" by simp_all
    moreover from snoc post have "c' \<noteq> End" "End \<notin> set post'" by auto
    ultimately show ?thesis using d1(5) d'(4) by simp
  qed
  have noend: "End \<notin> set (cs @ [c]) \<longrightarrow> endTime d' = endTime d"
    using d1(4) d'(4) by auto
  have all: "\<forall>pre post. cs @ [c] = pre @ End # post \<and> End \<notin> set post
                 \<longrightarrow> endTime d' = Some (clock (calls s pre st))"
    using last_end by blast
  show ?case
    by (rule exI [of _ d']) (use d'(1,2,3) d1(2,3) noend all in simp)
qed

subsection \<open>Child spans\<close>

text \<open>
  C8. \<open>startChild\<close> on a span returns a child whose trace id is the parent's trace id and
  whose \<open>parentSpanId\<close> is the parent's span id.
\<close>

theorem startChild_inherits_trace:
  assumes "getContext parent st = Some pc"
  shows "\<exists>child st' cc. startChild parent nm attrs st = Some (child, st')
           \<and> getContext child st' = Some cc
           \<and> SpanContext.traceId cc = SpanContext.traceId pc
           \<and> parentSpanId cc = Some (SpanContext.spanId pc)"
proof -
  from assms obtain d where d: "heap st (data parent) = Some d" "spanContext d = pc"
    by (auto simp: getContext_def)
  obtain sid st2 where gen: "generateId st = (sid, st2)" by (cases "generateId st")
  show ?thesis
    using d gen
    by (simp add: startChild_def newSpan_def getContext_def Let_def)
qed

lemma testSpan_context:
  "getContext testSpan startedStore
     = Some \<lparr>SpanContext.traceId = ''rs_i'', SpanContext.spanId = ''rs_i'', parentSpanId = None\<rparr>"
  by code_simp

theorem startChild_inherits_trace_witness:
  "\<exists>child st' cc. startChild testSpan ''child-operation'' None startedStore = Some (child, st')
      \<and> getContext child st' = Some cc
      \<and> SpanContext.traceId cc = ''rs_i''
      \<and> parentSpanId cc = Some ''rs_i''"
  using startChild_inherits_trace [OF testSpan_context, of "''child-operation''" None] by simp

subsection \<open>Ending a span\<close>

lemma testSpan_data:
  "getData testSpan startedStore
     = Some \<lparr>spanContext = \<lparr>SpanContext.traceId = ''rs_i'', SpanContext.spanId = ''rs_i'',
                              parentSpanId = None\<rparr>,
             SpanData.name = ''test-operation'', kind = KindClient, startTime = 1000,
             endTime = None, status = StatusUnset, SpanData.attributes = [], events = []\<rparr>"
  by code_simp

lemma startedStore_clock: "clock startedStore = 1000"
  by code_simp

text \<open>
  C2 says that after \<open>end()\<close> the tracer holds a copy of the span's data, which later
  calls on the span cannot change. \<open>end\<close> passes \<^verbatim>\<open>this.data\<close> itself and
  \<open>recordSpan\<close> pushes the reference it receives, so there is no copy: on the test span,
  ended at 1005, a later \<^verbatim>\<open>setAttribute('key', 'value')\<close> changes what the tracer's list
  shows.
\<close>

theorem recorded_span_mutated_after_end:
  "getSpans endedStore = [data testSpan]
   \<and> getSpans (setAttribute testSpan ''key'' (JsString ''value'') endedStore) = [data testSpan]
   \<and> recordedData (setAttribute testSpan ''key'' (JsString ''value'') endedStore)
        \<noteq> recordedData endedStore"
  by code_simp

text \<open>
  C9 says that \<open>endTime\<close> is assigned a single time, also over repeated calls of
  \<open>end()\<close>. \<open>end\<close> has no guard: on the test span, ended at 1005, a second call four
  milliseconds later assigns 1009 and hands the span to the tracer a second time.
\<close>

theorem endTime_assigned_again:
  "map_option endTime (getData testSpan endedStore) = Some (Some 1005)
   \<and> map_option endTime (getData testSpan (end_span testSpan (wait 4 endedStore)))
        = Some (Some 1009)
   \<and> getSpans (end_span testSpan (wait 4 endedStore)) = [data testSpan, data testSpan]"
  by code_simp


text \<open>
  C2, amended. \<open>end()\<close> on a sampled span appends to the tracer's list a reference to the
  span's own data object. The five mutators neither add nor remove a recorded entry and
  leave context, start time and end time of the entry as they were at \<open>end()\<close>; what they
  change in the span's data they change in the recorded entry, which is the same object:
  after a later \<^verbatim>\<open>setAttribute(k, v)\<close> the recorded entry has \<open>v\<close> under \<open>k\<close>.
\<close>

theorem recorded_span_shares_data:
  assumes "getData s st = Some d" and "fst (shouldSample st)" and "End \<notin> set cs"
  shows "getSpans (end_span s st) = getSpans st @ [data s]
       \<and> getSpans (calls s cs (end_span s st)) = getSpans st @ [data s]
       \<and> (\<exists>d'. heap (calls s cs (end_span s st)) (data s) = Some d'
               \<and> getData s (calls s cs (end_span s st)) = Some d'
               \<and> spanContext d' = spanContext d \<and> startTime d' = startTime d
               \<and> endTime d' = Some (clock st))
       \<and> (\<exists>d'. heap (setAttribute s k v (calls s cs (end_span s st))) (data s) = Some d'
               \<and> map_of (SpanData.attributes d') k = Some v)"
proof -
  let ?ended = "end_span s st"
  let ?later = "calls s cs ?ended"
  from assms(1) have d: "heap st (data s) = Some d" by (simp add: getData_def)
  have A: "getSpans ?ended = getSpans st @ [data s]"
    using assms(2) by (simp add: getSpans_def end_span_spans)
  have B: "getSpans ?later = getSpans st @ [data s]"
    using A assms(3) by (simp add: getSpans_def calls_spans)
  let ?e = "d\<lparr>endTime := Some (clock st),
               status := (if status d = StatusUnset then StatusOk else status d)\<rparr>"
  have e: "heap ?ended (data s) = Some ?e" by (rule end_span_heap [OF d])
  from calls_data [OF e, of cs] assms(3)
  obtain d' where d': "heap ?later (data s) = Some d'" "startTime d' = startTime ?e"
    "spanContext d' = spanContext ?e" "endTime d' = endTime ?e"
    by blast
  have C: "\<exists>d'. heap ?later (data s) = Some d' \<and> getData s ?later = Some d'
               \<and> spanContext d' = spanContext d \<and> startTime d' = startTime d
               \<and> endTime d' = Some (clock st)"
    by (rule exI [of _ d']) (use d' in \<open>simp add: getData_def\<close>)
  have D: "\<exists>d'. heap (setAttribute s k v ?later) (data s) = Some d'
               \<and> map_of (SpanData.attributes d') k = Some v"
    using d'(1) by (simp add: setAttribute_def updateData_heap update_conv')
  from A B C D show ?thesis by (intro conjI)
qed

lemma endedStore_unfold: "end_span testSpan (wait 5 startedStore) = endedStore"
  by (simp add: endedStore_def)

theorem recorded_span_shares_data_witness:
  "getSpans endedStore = [data testSpan]
   \<and> getSpans (calls testSpan [SetStatus StatusError (JsString ''late'')] endedStore)
        = [data testSpan]
   \<and> (\<exists>d'. getData testSpan (calls testSpan [SetStatus StatusError (JsString ''late'')] endedStore)
               = Some d'
          \<and> startTime d' = 1000 \<and> endTime d' = Some 1005)
   \<and> (\<exists>d'. heap (setAttribute testSpan ''key'' (JsString ''value'')
                    (calls testSpan [SetStatus StatusError (JsString ''late'')] endedStore))
               (data testSpan) = Some d'
          \<and> map_of (SpanData.attributes d') ''key'' = Some (JsString ''value''))"
proof -
  have d: "getData testSpan (wait 5 startedStore)
     = Some \<lparr>spanContext = \<lparr>SpanContext.traceId = ''rs_i'', SpanContext.spanId = ''rs_i'',
                              parentSpanId = None\<rparr>,
             SpanData.name = ''test-operation'', kind = KindClient, startTime = 1000,
             endTime = None, status = StatusUnset, SpanData.attributes = [], events = []\<rparr>"
    using testSpan_data by (simp add: getData_def wait_frame)
  have sampled: "fst (shouldSample (wait 5 startedStore))" by code_simp
  have noend: "End \<notin> set [SetStatus StatusError (JsString ''late'')]" by simp
  have "getSpans (wait 5 startedStore) = []" by code_simp
  moreover have "clock (wait 5 startedStore) = 1005"
    by (simp add: wait_frame startedStore_clock)
  ultimately show ?thesis
    using recorded_span_shares_data [OF d sampled noend, of "''key''" "JsString ''value''"]
    by (auto simp add: endedStore_unfold)
qed

text \<open>
  C9, amended. For a span that is open and was started no later than the clock shows now
  (the clock of the store never runs backwards), after any sequence of calls and waits:
  the start time is unchanged; the end time is unset as long as \<open>end()\<close> was not called;
  otherwise it is the clock reading at the latest call of \<open>end()\<close>, each call assigning it
  again; and an end time that is set is not before the start time.
\<close>

theorem endTime_is_latest_end:
  assumes "getData s st = Some d" and "endTime d = None" and "startTime d \<le> clock st"
  shows "\<exists>d'. getData s (calls s cs st) = Some d' \<and> startTime d' = startTime d
           \<and> (End \<notin> set cs \<longrightarrow> endTime d' = None)
           \<and> (\<forall>pre post. cs = pre @ End # post \<and> End \<notin> set post
                 \<longrightarrow> endTime d' = Some (clock (calls s pre st)))
           \<and> (\<forall>t. endTime d' = Some t \<longrightarrow> startTime d' \<le> t)"
proof -
  from assms(1) have d: "heap st (data s) = Some d" by (simp add: getData_def)
  from calls_data [OF d, of cs]
  obtain d' where d': "heap (calls s cs st) (data s) = Some d'" "startTime d' = startTime d"
    "End \<notin> set cs \<longrightarrow> endTime d' = endTime d"
    "\<forall>pre post. cs = pre @ End # post \<and> End \<notin> set post
                 \<longrightarrow> endTime d' = Some (clock (calls s pre st))"
    by blast
  have later: "startTime d' \<le> t" if t: "endTime d' = Some t" for t
  proof (cases "End \<in> set cs")
    case False
    with d'(3) assms(2) t show ?thesis by simp
  next
    case True
    then obtain pre post where "cs = pre @ End # post" "End \<notin> set post"
      by (auto dest: split_list_last)
    with d'(4) t have "t = clock (calls s pre st)" by auto
    with calls_clock [of st s pre] assms(3) d'(2) show ?thesis by simp
  qed
  have open_: "End \<notin> set cs \<longrightarrow> endTime d' = None" using d'(3) assms(2) by simp
  have bound: "\<forall>t. endTime d' = Some t \<longrightarrow> startTime d' \<le> t" using later by blast
  show ?thesis
    by (rule exI [of _ d']) (use d'(1,2,4) open_ bound in \<open>simp add: getData_def\<close>)
qed

theorem endTime_is_latest_end_witness:
  "\<exists>d'. getData testSpan (calls testSpan [Wait 5, End, Wait 4, End] startedStore) = Some d'
      \<and> startTime d' = 1000 \<and> endTime d' = Some 1009 \<and> startTime d' \<le> 1009"
proof -
  let ?d = "\<lparr>spanContext = \<lparr>SpanContext.traceId = ''rs_i'', SpanContext.spanId = ''rs_i'',
                              parentSpanId = None\<rparr>,
             SpanData.name = ''test-operation'', kind = KindClient, startTime = 1000,
             endTime = None, status = StatusUnset, SpanData.attributes = [], events = []\<rparr>"
  have open_: "endTime ?d = None" and started: "startTime ?d \<le> clock startedStore"
    by (simp_all add: startedStore_clock)
  from endTime_is_latest_end [OF testSpan_data open_ started, of "[Wait 5, End, Wait 4, End]"]
  obtain d' where d': "getData testSpan (calls testSpan [Wait 5, End, Wait 4, End] startedStore) = Some d'"
    "startTime d' = 1000"
    "\<forall>pre post. [Wait 5, End, Wait 4, End] = pre @ End # post \<and> End \<notin> set post
                 \<longrightarrow> endTime d' = Some (clock (calls testSpan pre startedStore))"
    "\<forall>t. endTime d' = Some t \<longrightarrow> startTime d' \<le> t"
    by auto
  have "clock (calls testSpan [Wait 5, End, Wait 4] startedStore) = 1009"
    by (simp add: calls_def call_clock end_span_clock wait_frame startedStore_clock)
  with d'(3) [rule_format, of "[Wait 5, End, Wait 4]" "[]"]
  have "endTime d' = Some 1009" by simp
  with d'(1,2,4) show ?thesis by auto
qed

end
